theory Spec2Isabelle
  imports Main
begin

section \<open>The value-reference validator\<close>

text \<open>
  The stylelint rule \<^verbatim>\<open>csstools/value-no-unknown-custom-properties\<close> (src/index.js).
  This section embeds the validator: \<^verbatim>\<open>isVarFunction\<close>, \<^verbatim>\<open>validateValueAST\<close>,
  \<^verbatim>\<open>validateDecl\<close>, \<^verbatim>\<open>validateResult\<close> and \<^verbatim>\<open>hasCustomPropertyReference\<close>.

  Errors raised by the JavaScript are values. \<open>TypeError\<close> is what reading a property
  of \<^verbatim>\<open>undefined\<close> throws; the other errors are the rejections of the file-system,
  parser and module primitives used further down.
\<close>

datatype error = TypeError | IOError | SyntaxError | ModuleError | ResolveError

text \<open>
  A node of the value syntax tree, as the validator probes it: the properties it reads
  are \<^verbatim>\<open>type\<close>, \<^verbatim>\<open>name\<close>, \<^verbatim>\<open>value\<close>, \<^verbatim>\<open>isVariable\<close> and \<^verbatim>\<open>nodes\<close>.
  \<open>nodes = None\<close> is a node without a \<^verbatim>\<open>nodes\<close> property (\<^verbatim>\<open>undefined\<close>);
  \<open>isVariable = False\<close> covers a missing flag, which is falsy just the same;
  a node without a \<^verbatim>\<open>name\<close> carries any string other than \<^verbatim>\<open>var\<close>.
\<close>

datatype node =
  Node (node_type: string) (node_name: string) (node_value: string) (isVariable: bool)
       (nodes: "node list option")

text \<open>A declaration of the stylesheet: \<^verbatim>\<open>decl.prop\<close> and \<^verbatim>\<open>decl.value\<close>.\<close>

record decl =
  decl_prop :: string
  decl_value :: string

text \<open>
  The argument of one call of \<^verbatim>\<open>stylelint.utils.report\<close>, without the \<^verbatim>\<open>result\<close>
  sink itself: the diagnostics of a run are the list of these calls, in order.
\<close>

record report =
  message :: string
  report_node :: decl
  report_ruleName :: string
  word :: string

text \<open>A custom-property mapping is a JavaScript object used as a dictionary.\<close>

type_synonym customProperties = "string \<rightharpoonup> string"

text \<open>
  What a run of the validator leaves behind: the reports made so far and, when an
  exception ended the run, that exception. Reports made before a throw stay in the
  result object.
\<close>

type_synonym outcome = "report list \<times> error option"

definition ruleName :: string where
  "ruleName = ''csstools/value-no-unknown-custom-properties''"

text \<open>
  The message template handed to \<^verbatim>\<open>stylelint.utils.ruleMessages\<close>. That function
  belongs to the host framework; it is a parameter \<open>ruleMessages\<close> of the validator, and
  \<open>stylelint_ruleMessages\<close> below is the implementation stylelint ships (it appends the
  rule name in parentheses), used where a concrete host is needed.
\<close>

definition unexpected :: "string \<Rightarrow> string \<Rightarrow> string" where
  \<open>unexpected name prop =
     ''Unexpected custom property "'' @ name @ ''" inside declaration "'' @ prop @ ''".''\<close>

type_synonym ruleMessages = "string \<Rightarrow> (string \<Rightarrow> string \<Rightarrow> string) \<Rightarrow> string \<Rightarrow> string \<Rightarrow> string"

definition stylelint_ruleMessages :: ruleMessages where
  "stylelint_ruleMessages rule template a b = template a b @ '' ('' @ rule @ '')''"

text \<open>
  \<^verbatim>\<open>node.type === 'func' && node.name === 'var' && node.nodes[0].isVariable\<close>.
  The conjunction short-circuits; its third operand indexes \<^verbatim>\<open>node.nodes\<close> without a
  guard, so it throws when \<^verbatim>\<open>nodes\<close> is missing or empty.
\<close>

definition isVarFunction :: "node \<Rightarrow> error + bool" where
  "isVarFunction node =
     (if node_type node = ''func'' \<and> node_name node = ''var''
      then (case nodes node of
              None \<Rightarrow> Inl TypeError
            | Some [] \<Rightarrow> Inl TypeError
            | Some (first # _) \<Rightarrow> Inr (isVariable first))
      else Inr False)"

text \<open>\<^verbatim>\<open>fallbacks.filter(isVarFunction)\<close>: the test runs on every element, left to right.\<close>

fun filter_isVarFunction :: "node list \<Rightarrow> error + node list" where
  "filter_isVarFunction [] = Inr []"
| "filter_isVarFunction (x # xs) =
     (case isVarFunction x of
        Inl e \<Rightarrow> Inl e
      | Inr keep \<Rightarrow>
          (case filter_isVarFunction xs of
             Inl e \<Rightarrow> Inl e
           | Inr ys \<Rightarrow> Inr (if keep then x # ys else ys)))"

text \<open>Sequencing of two pieces of the walk: the second runs only if the first did not throw.\<close>

definition andThen :: "outcome \<Rightarrow> outcome \<Rightarrow> outcome" where
  "andThen a b = (case snd a of Some e \<Rightarrow> a | None \<Rightarrow> (fst a @ fst b, snd b))"

lemma size_filter_isVarFunction:
  "filter_isVarFunction xs = Inr ys \<Longrightarrow> size_list size ys \<le> size_list size xs"
  by (induction xs arbitrary: ys) (auto split: sum.splits if_splits)

lemma size_nodes_less: "size_option (size_list size) (nodes n) < size n"
  by (cases n) simp

lemma size_list_drop_le: "size_list f (drop k xs) \<le> size_list f xs"
  by (induction xs arbitrary: k) (auto simp: drop_Cons split: nat.splits intro: le_SucI trans_le_add2)

text \<open>
  \<^verbatim>\<open>validateValueAST(ast, {result, customProperties, decl})\<close>. The argument is
  \<^verbatim>\<open>ast.nodes\<close>, the only property of \<^verbatim>\<open>ast\<close> that is read. The guard
  \<^verbatim>\<open>Object(ast.nodes).length\<close> is falsy for a missing and for an empty list; otherwise
  \<^verbatim>\<open>forEach\<close> runs the callback on the first node and then on the rest.

  In the callback, \<^verbatim>\<open>[propertyNode, comma, ...fallbacks] = node.nodes\<close> takes the first
  child, skips the second whatever it is, and keeps the others. The test
  \<^verbatim>\<open>propertyName in customProperties\<close> is a lookup of the key: the object also inherits the
  properties of \<^verbatim>\<open>Object.prototype\<close>, none of which has the name of a variable token (those
  begin with two dashes).
\<close>

function validateValueAST ::
  "ruleMessages \<Rightarrow> customProperties \<Rightarrow> decl \<Rightarrow> node list option \<Rightarrow> outcome" where
  "validateValueAST rm cp decl None = ([], None)"
| "validateValueAST rm cp decl (Some []) = ([], None)"
| "validateValueAST rm cp decl (Some (node # rest)) =
     andThen
       (case isVarFunction node of
          Inl e \<Rightarrow> ([], Some e)
        | Inr True \<Rightarrow>
            (case nodes node of
               Some (propertyNode # args) \<Rightarrow>
                 (let propertyName = node_value propertyNode;
                      fallbacks = drop 1 args
                  in if cp propertyName \<noteq> None then ([], None)
                     else if fallbacks \<noteq> [] then
                       (case filter_isVarFunction fallbacks of
                          Inl e \<Rightarrow> ([], Some e)
                        | Inr vars \<Rightarrow> validateValueAST rm cp decl (Some vars))
                     else ([\<lparr>message = rm ruleName unexpected propertyName (decl_prop decl),
                             report_node = decl,
                             report_ruleName = ruleName,
                             word = propertyName\<rparr>], None))
             | _ \<Rightarrow> ([], Some TypeError))
        | Inr False \<Rightarrow> validateValueAST rm cp decl (nodes node))
       (validateValueAST rm cp decl (Some rest))"
  by pat_completeness auto
termination
proof (relation "measure (\<lambda>(rm, cp, decl, a). size_option (size_list size) a)", goal_cases)
  case 1
  show ?case by simp
next
  case (2 rm cp decl node rest b propertyNodes propertyNode args propertyName fallbacks vars)
  have "size_list size vars \<le> size_list size (drop 1 args)"
    using 2 size_filter_isVarFunction by blast
  also have "\<dots> \<le> size_list size args"
    by (rule size_list_drop_le)
  also have "\<dots> < size node"
    using size_nodes_less [of node] 2 by simp
  finally show ?case by simp
next
  case (3 rm cp decl node rest b)
  then show ?case using size_nodes_less [of node] by simp
next
  case (4 rm cp decl node rest)
  then show ?case by simp
qed

section \<open>Occurrences of a node inside a value\<close>

text \<open>
  The claims speak of ``an occurrence'' of a \<^verbatim>\<open>var()\<close> reference in a declaration value.
  An occurrence is a node together with the chain of its ancestors: each \<open>frame\<close> is one
  ancestor with the siblings before and after the position, outermost first, and
  \<open>plug fs v\<close> is the tree with \<open>v\<close> at that position.
\<close>

datatype frame =
  Frame (frame_type: string) (frame_name: string) (frame_value: string) (frame_isVariable: bool)
        (frame_pre: "node list") (frame_post: "node list")

fun plug :: "frame list \<Rightarrow> node \<Rightarrow> node" where
  "plug [] v = v"
| "plug (Frame t n val iv pre post # fs) v = Node t n val iv (Some (pre @ plug fs v # post))"

text \<open>
  A leaf that the walk passes over in silence (it is no function and has no children),
  with the two properties of \<open>v\<close> that an enclosing \<^verbatim>\<open>var()\<close> could read from its first
  child. Replacing an occurrence by it removes the occurrence and nothing else.
\<close>

definition inert :: "node \<Rightarrow> node" where
  "inert v = Node ''word'' [] (node_value v) (isVariable v) None"

text \<open>
  Two nodes that the validator cannot tell apart, wherever they stand: equal flag and
  text, equal outcome when walked, and equal under \<^verbatim>\<open>isVarFunction\<close> unless the first is a
  silent reference that the filter keeps and the second is dropped.
\<close>

definition same_walk :: "ruleMessages \<Rightarrow> customProperties \<Rightarrow> decl \<Rightarrow> node \<Rightarrow> node \<Rightarrow> bool" where
  "same_walk rm cp decl X Y \<longleftrightarrow>
     isVariable X = isVariable Y \<and> node_value X = node_value Y \<and>
     validateValueAST rm cp decl (Some [X]) = validateValueAST rm cp decl (Some [Y]) \<and>
     (isVarFunction X = isVarFunction Y \<or>
      (isVarFunction X = Inr True \<and> isVarFunction Y = Inr False \<and>
       validateValueAST rm cp decl (Some [X]) = ([], None)))"

text \<open>
  The positions the walk reaches. It descends into the children of every node that is
  not a \<^verbatim>\<open>var()\<close> reference; of a \<^verbatim>\<open>var()\<close> reference with an unknown name it walks the
  fallbacks (third child onwards) that are themselves \<^verbatim>\<open>var()\<close> references.
\<close>

fun visited :: "customProperties \<Rightarrow> frame list \<Rightarrow> node \<Rightarrow> bool" where
  "visited cp [] v = True"
| "visited cp (f # fs) v =
     ((case isVarFunction (plug (f # fs) v) of
         Inl e \<Rightarrow> False
       | Inr False \<Rightarrow> True
       | Inr True \<Rightarrow>
           (case frame_pre f of
              p # sep # fpre \<Rightarrow> cp (node_value p) = None \<and> isVarFunction (plug fs v) = Inr True
            | _ \<Rightarrow> False))
      \<and> visited cp fs v)"

text \<open>
  \<open>splices c X Y\<close>: whenever the walk of \<open>X\<close> completes, its reports are those of \<open>Y\<close>
  with the list \<open>c\<close> inserted at one place.
\<close>

definition splices ::
  "ruleMessages \<Rightarrow> customProperties \<Rightarrow> decl \<Rightarrow> report list \<Rightarrow> node \<Rightarrow> node \<Rightarrow> bool" where
  "splices rm cp decl c X Y \<longleftrightarrow>
     isVariable X = isVariable Y \<and>
     (isVarFunction X = isVarFunction Y \<or>
      (isVarFunction X = Inr True \<and> isVarFunction Y = Inr False \<and>
       validateValueAST rm cp decl (Some [X]) = (c, None) \<and>
       validateValueAST rm cp decl (Some [Y]) = ([], None))) \<and>
     (\<forall>ds. validateValueAST rm cp decl (Some [X]) = (ds, None) \<longrightarrow>
        (\<exists>A B. ds = A @ c @ B \<and> validateValueAST rm cp decl (Some [Y]) = (A @ B, None)))"

text \<open>
  Every function node named \<^verbatim>\<open>var\<close> in the tree has at least one argument node.
\<close>

fun guarded :: "node \<Rightarrow> bool" where
  "guarded (Node t n val iv ns) =
     ((t = ''func'' \<and> n = ''var'' \<longrightarrow> (case ns of Some (c # cs) \<Rightarrow> True | _ \<Rightarrow> False)) \<and>
      (case ns of None \<Rightarrow> True | Some cs \<Rightarrow> (\<forall>c \<in> set cs. guarded c)))"

text \<open>
  The nodes the value parser builds, for concrete values: a function call with its
  argument nodes, a word (flagged or not as a variable token) and a punctuation mark.
\<close>

definition func :: "string \<Rightarrow> node list \<Rightarrow> node" where
  "func name args = Node ''func'' name [] False (Some args)"

definition word_node :: "string \<Rightarrow> bool \<Rightarrow> node" where
  "word_node text variable = Node ''word'' [] text variable None"

definition punctuation :: "string \<Rightarrow> node" where
  "punctuation text = Node ''punctuation'' [] text False None"

section \<open>The custom-property resolver\<close>

text \<open>
  The stylesheet tree, as the resolver and the validator walk it: declarations,
  at-rules and rules, the last two with their child nodes (none for an at-rule without a
  body, such as \<^verbatim>\<open>@import\<close>). \<open>root_file\<close> is \<^verbatim>\<open>root.source.input.file\<close>, absent for a
  tree without a known origin.
\<close>

datatype css_node =
  Decl decl
| AtRule (atrule_name: string) (atrule_params: string) "css_node list"
| Rule string "css_node list"
| Comment string

record root =
  root_file :: "string option"
  root_nodes :: "css_node list"

text \<open>
  The tree walk of the stylesheet parser: every node in document order, a container
  before its children. The callbacks of this program never stop a walk.
\<close>

fun walk :: "css_node \<Rightarrow> css_node list" where
  "walk (Decl d) = [Decl d]"
| "walk (AtRule n p cs) = AtRule n p cs # concat (map walk cs)"
| "walk (Rule s cs) = Rule s cs # concat (map walk cs)"
| "walk (Comment t) = [Comment t]"

text \<open>\<^verbatim>\<open>root.walkAtRules(name, callback)\<close>: the at-rules of that name, in walk order.\<close>

definition walkAtRules :: "string \<Rightarrow> root \<Rightarrow> css_node list" where
  "walkAtRules name r =
     filter (\<lambda>n. case n of AtRule nm _ _ \<Rightarrow> nm = name | _ \<Rightarrow> False)
       (concat (map walk (root_nodes r)))"

text \<open>
  \<^verbatim>\<open>root.walkDecls(callback)\<close> and \<^verbatim>\<open>root.walkDecls(regexp, callback)\<close>: the declarations
  (those whose \<^verbatim>\<open>prop\<close> the expression matches), in walk order.
\<close>

definition walkDecls :: "(string \<Rightarrow> bool) \<Rightarrow> root \<Rightarrow> decl list" where
  "walkDecls matches r =
     concat (map (\<lambda>n. case n of Decl d \<Rightarrow> (if matches (decl_prop d) then [d] else []) | _ \<Rightarrow> [])
       (concat (map walk (root_nodes r))))"

text \<open>
  The character classes of the two regular expressions. \<^verbatim>\<open>\w\<close> is a letter, a digit or
  the underscore. \<^verbatim>\<open>[A-z]\<close> is the range of code units from \<^verbatim>\<open>A\<close> (65) to \<^verbatim>\<open>z\<close> (122).
\<close>

definition is_word_char :: "char \<Rightarrow> bool" where
  "is_word_char c =
     (let k = (of_char c :: nat)
      in (65 \<le> k \<and> k \<le> 90) \<or> (97 \<le> k \<and> k \<le> 122) \<or> (48 \<le> k \<and> k \<le> 57) \<or> k = 95)"

definition in_range_A_z :: "char \<Rightarrow> bool" where
  "in_range_A_z c = (let k = (of_char c :: nat) in 65 \<le> k \<and> k \<le> 122)"

text \<open>
  \<^verbatim>\<open>/^--[A-z][\w-]*$/\<close>, as the predicate \<^verbatim>\<open>customPropertyRegExp.test\<close>: the whole string
  is two dashes, one character of \<^verbatim>\<open>[A-z]\<close>, then word characters and dashes.
\<close>

definition customPropertyRegExp :: "string \<Rightarrow> bool" where
  "customPropertyRegExp s =
     (case s of
        d1 # d2 # c # rest \<Rightarrow>
          d1 = CHR ''-'' \<and> d2 = CHR ''-'' \<and> in_range_A_z c \<and>
          list_all (\<lambda>x. is_word_char x \<or> x = CHR ''-'') rest
      | _ \<Rightarrow> False)"

text \<open>
  Options of the import resolution, each possibly missing, and the options object that
  \<^verbatim>\<open>resolveId\<close> hands to the \<^verbatim>\<open>resolve\<close> package.
\<close>

record resolver =
  resolver_paths :: "string list option"
  resolver_moduleDirectories :: "string list option"
  resolver_extensions :: "string list option"

record resolveOpts =
  basedir :: string
  moduleDirectory :: "string list"
  paths :: "string list"
  extensions :: "string list"
  preserveSymlinks :: bool

text \<open>
  A JavaScript object as the source aggregator probes it: the properties \<^verbatim>\<open>type\<close>,
  \<^verbatim>\<open>from\<close>, \<^verbatim>\<open>customProperties\<close> and \<^verbatim>\<open>custom-properties\<close>, each possibly missing.
\<close>

record js_object =
  obj_type :: "string option"
  obj_from :: "string option"
  obj_customProperties :: "customProperties option"
  obj_custom_properties :: "customProperties option"

text \<open>The primary option of the rule: \<^verbatim>\<open>true\<close>, \<^verbatim>\<open>false\<close>, \<^verbatim>\<open>null\<close> or any other value.\<close>

datatype method_value = MethodTrue | MethodFalse | MethodNull | MethodOther

text \<open>
  The primitives of the platform and of the libraries, which are not part of this
  program: reading a file (\<open>None\<close>: the read fails), the stylesheet parser (\<open>None\<close>: a
  syntax error), the \<^verbatim>\<open>resolve\<close> package (\<open>None\<close>: no such module), the \<^verbatim>\<open>path\<close> functions,
  \<^verbatim>\<open>__dirname\<close>, \<^verbatim>\<open>JSON.parse\<close> (\<open>None\<close>: a syntax error), the dynamic module load (\<open>None\<close>:
  it fails), the value parser (its result's \<^verbatim>\<open>nodes\<close>, or the error it throws),
  \<^verbatim>\<open>stylelint.utils.ruleMessages\<close>, and \<^verbatim>\<open>stylelint.utils.validateOptions\<close> as a function of
  the option \<^verbatim>\<open>actual\<close> and of what the \<^verbatim>\<open>possible\<close> callback returns for it (it reports an
  invalid option itself).
\<close>

record env =
  readFile :: "string \<Rightarrow> string option"
  postcss_parse :: "string \<Rightarrow> string \<Rightarrow> root option"
  resolve :: "string \<Rightarrow> resolveOpts \<Rightarrow> string option"
  path_isAbsolute :: "string \<Rightarrow> bool"
  path_dirname :: "string \<Rightarrow> string"
  path_resolve :: "string \<Rightarrow> string"
  path_extname :: "string \<Rightarrow> string"
  dirname :: string
  JSON_parse :: "string \<Rightarrow> js_object option"
  import_module :: "string \<Rightarrow> js_object option"
  values_parse :: "string \<Rightarrow> error + node list option"
  ruleMessages :: ruleMessages
  validateOptions :: "method_value \<Rightarrow> bool \<Rightarrow> bool"

text \<open>\<^verbatim>\<open>resolveId(id, basedir, {paths, moduleDirectories, extensions})\<close> with its defaults.\<close>

definition resolveId :: "env \<Rightarrow> string \<Rightarrow> string \<Rightarrow> resolver \<Rightarrow> string option" where
  "resolveId env ident base r =
     resolve env ident
       \<lparr>basedir = base,
        moduleDirectory = (case resolver_moduleDirectories r of None \<Rightarrow> [''node_modules''] | Some ds \<Rightarrow> ds),
        paths = (case resolver_paths r of None \<Rightarrow> [] | Some ps \<Rightarrow> ps),
        extensions = (case resolver_extensions r of None \<Rightarrow> [''.css''] | Some es \<Rightarrow> es),
        preserveSymlinks = False\<rparr>"

text \<open>
  \<^verbatim>\<open>Object.assign(target, ...sources)\<close> on mappings: every own property of each source is
  written to the target, in order; a source that is \<^verbatim>\<open>undefined\<close> (\<open>None\<close>) is skipped.
  The result is the content of the target object afterwards.
\<close>

definition Object_assign :: "customProperties \<Rightarrow> customProperties option list \<Rightarrow> customProperties" where
  "Object_assign target sources =
     foldl (\<lambda>t s. case s of None \<Rightarrow> t | Some m \<Rightarrow> t ++ m) target sources"

text \<open>
  The pieces of \<^verbatim>\<open>getCustomPropertiesFromRoot(root, resolver)\<close>: the directory imports are
  resolved against, the specifier of an \<^verbatim>\<open>@import\<close> (its parameter without the characters
  of \<^verbatim>\<open>/['|"]/g\<close>), and the two callbacks that write into the mapping: one for the result
  of an import, one for a declaration of the tree itself.
\<close>

definition sourceDir_of :: "env \<Rightarrow> root \<Rightarrow> string" where
  "sourceDir_of env r =
     (case root_file r of
        Some file \<Rightarrow> if file \<noteq> [] then path_dirname env file else dirname env
      | None \<Rightarrow> dirname env)"

definition import_fileName :: "css_node \<Rightarrow> string" where
  "import_fileName atRule =
     filter (\<lambda>c. c \<noteq> CHR 0x27 \<and> c \<noteq> CHR ''|'' \<and> c \<noteq> CHR 0x22) (atrule_params atRule)"

definition assign_import :: "customProperties \<Rightarrow> customProperties option \<Rightarrow> customProperties" where
  "assign_import customProperties propertiesFromImport =
     Object_assign customProperties [propertiesFromImport]"

definition write_declaration :: "customProperties \<Rightarrow> decl \<Rightarrow> customProperties" where
  "write_declaration customProperties decl = customProperties(decl_prop decl \<mapsto> decl_value decl)"

text \<open>
  \<^verbatim>\<open>getCustomPropertiesFromRoot(root, resolver)\<close> and the loader it uses for imported files,
  \<^verbatim>\<open>getCustomPropertiesFromCSSFile$1(from, resolver)\<close>. Nothing bounds the chain of imports
  (a file may import itself), so the functions take fuel, the number of nested calls of
  \<^verbatim>\<open>getCustomPropertiesFromRoot\<close> still allowed; \<open>None\<close> is a promise that never settles.
  An import promise settles to a mapping or, after \<^verbatim>\<open>.catch(() => {})\<close>, to \<^verbatim>\<open>undefined\<close>.
  \<^verbatim>\<open>Promise.all\<close> keeps the order of the at-rules. The \<^verbatim>\<open>try\<close> block of the loader catches
  every error of the read, the parse and the recursive call.
\<close>

function getCustomPropertiesFromRoot :: "nat \<Rightarrow> env \<Rightarrow> resolver \<Rightarrow> root \<Rightarrow> customProperties option"
  and getCustomPropertiesFromCSSFile1 :: "nat \<Rightarrow> env \<Rightarrow> resolver \<Rightarrow> string \<Rightarrow> customProperties option"
where
  "getCustomPropertiesFromRoot 0 env r root = None"
| "getCustomPropertiesFromRoot (Suc fuel) env r root =
     (case those
        (map (\<lambda>atRule.
                if path_isAbsolute env (import_fileName atRule)
                then map_option Some (getCustomPropertiesFromCSSFile1 fuel env r (import_fileName atRule))
                else (case resolveId env (import_fileName atRule) (sourceDir_of env root) r of
                        None \<Rightarrow> Some None
                      | Some filePath \<Rightarrow>
                          map_option Some (getCustomPropertiesFromCSSFile1 fuel env r filePath)))
           (walkAtRules ''import'' root)) of
        None \<Rightarrow> None
      | Some results \<Rightarrow>
          Some (foldl write_declaration (foldl assign_import Map.empty results)
                  (walkDecls customPropertyRegExp root)))"
| "getCustomPropertiesFromCSSFile1 fuel env r from =
     (case readFile env from of
        None \<Rightarrow> Some Map.empty
      | Some css \<Rightarrow>
          (case postcss_parse env css from of
             None \<Rightarrow> Some Map.empty
           | Some root \<Rightarrow> getCustomPropertiesFromRoot fuel env r root))"
  by pat_completeness auto
termination
  by (relation "measure (\<lambda>x. case x of Inl (fuel, _) \<Rightarrow> 2 * fuel | Inr (fuel, _) \<Rightarrow> 2 * fuel + 1)")
    auto

text \<open>
  The import promises of a tree, in the order of its \<^verbatim>\<open>@import\<close> rules, and the pairs its
  own custom-property declarations write, in walk order.
\<close>

definition importPromises :: "nat \<Rightarrow> env \<Rightarrow> resolver \<Rightarrow> root \<Rightarrow> customProperties option option list" where
  "importPromises fuel env r root =
     map (\<lambda>atRule.
            if path_isAbsolute env (import_fileName atRule)
            then map_option Some (getCustomPropertiesFromCSSFile1 fuel env r (import_fileName atRule))
            else (case resolveId env (import_fileName atRule) (sourceDir_of env root) r of
                    None \<Rightarrow> Some None
                  | Some filePath \<Rightarrow>
                      map_option Some (getCustomPropertiesFromCSSFile1 fuel env r filePath)))
       (walkAtRules ''import'' root)"

definition own_declarations :: "root \<Rightarrow> (string \<times> string) list" where
  "own_declarations root = map (\<lambda>d. (decl_prop d, decl_value d)) (walkDecls customPropertyRegExp root)"

text \<open>
  The loaders of the configured sources. None of the three has a \<^verbatim>\<open>try\<close> block: a
  failure of \<^verbatim>\<open>readFile\<close>, of a parser or of the module load rejects the promise.
\<close>

definition getCustomPropertiesFromCSSFile ::
  "nat \<Rightarrow> env \<Rightarrow> resolver \<Rightarrow> string \<Rightarrow> (error + customProperties) option" where
  "getCustomPropertiesFromCSSFile fuel env r from =
     (case readFile env from of
        None \<Rightarrow> Some (Inl IOError)
      | Some css \<Rightarrow>
          (case postcss_parse env css from of
             None \<Rightarrow> Some (Inl SyntaxError)
           | Some root \<Rightarrow> map_option Inr (getCustomPropertiesFromRoot fuel env r root)))"

definition getCustomPropertiesFromObject :: "js_object \<Rightarrow> customProperties" where
  "getCustomPropertiesFromObject object =
     Object_assign Map.empty [obj_customProperties object, obj_custom_properties object]"

definition readJSON :: "env \<Rightarrow> string \<Rightarrow> error + js_object" where
  "readJSON env from =
     (case readFile env from of
        None \<Rightarrow> Inl IOError
      | Some text \<Rightarrow> (case JSON_parse env text of None \<Rightarrow> Inl SyntaxError | Some object \<Rightarrow> Inr object))"

definition getCustomPropertiesFromJSONFile :: "env \<Rightarrow> string \<Rightarrow> error + customProperties" where
  "getCustomPropertiesFromJSONFile env from =
     (case readJSON env from of
        Inl e \<Rightarrow> Inl e
      | Inr object \<Rightarrow> Inr (getCustomPropertiesFromObject object))"

definition getCustomPropertiesFromJSFile :: "env \<Rightarrow> string \<Rightarrow> error + customProperties" where
  "getCustomPropertiesFromJSFile env from =
     (case import_module env from of
        None \<Rightarrow> Inl ModuleError
      | Some object \<Rightarrow> Inr (getCustomPropertiesFromObject object))"

section \<open>The source aggregator and the rule\<close>

text \<open>
  A promise, by how it ends: \<open>None\<close> never settles, \<open>Some (Inl e)\<close> is rejected with
  \<open>e\<close>, \<open>Some (Inr v)\<close> is fulfilled with \<open>v\<close>.
\<close>

type_synonym 'a promise = "(error + 'a) option"

text \<open>
  A configured source: a promise (by the object it settles to), a factory (by the
  object, or the settled promise, it returns), an object, or anything else, which is
  coerced to a string and read as a path.
\<close>

datatype source =
  PromiseSource "error + js_object"
| FunctionSource "error + js_object"
| ObjectSource js_object
| StringSource string

text \<open>\<^verbatim>\<open>String.prototype.toLowerCase\<close> on the letters \<^verbatim>\<open>A\<close> to \<^verbatim>\<open>Z\<close>.\<close>

definition toLowerCase :: "string \<Rightarrow> string" where
  "toLowerCase s =
     map (\<lambda>c. let k = (of_char c :: nat) in if 65 \<le> k \<and> k \<le> 90 then char_of (k + 32) else c) s"

text \<open>
  The callback of \<^verbatim>\<open>sources.map\<close> in \<^verbatim>\<open>getCustomPropertiesFromSources\<close>. An object that
  carries a mapping under either key passes unchanged; otherwise the source becomes
  \<^verbatim>\<open>{type, from}\<close>, the type given or taken from the file extension, lower-cased.
\<close>

definition sources_map_callback :: "env \<Rightarrow> source \<Rightarrow> error + js_object" where
  "sources_map_callback env source =
     (case source of
        PromiseSource p \<Rightarrow> p
      | FunctionSource returned \<Rightarrow> returned
      | _ \<Rightarrow>
          (let opts = (case source of
                         ObjectSource object \<Rightarrow> object
                       | StringSource s \<Rightarrow>
                           \<lparr>obj_type = None, obj_from = Some s,
                            obj_customProperties = None, obj_custom_properties = None\<rparr>)
           in if obj_customProperties opts \<noteq> None \<or> obj_custom_properties opts \<noteq> None
              then Inr opts
              else
                (let from = path_resolve env (case obj_from opts of None \<Rightarrow> [] | Some f \<Rightarrow> f);
                     given = (case obj_type opts of None \<Rightarrow> [] | Some t \<Rightarrow> t);
                     type = toLowerCase (if given \<noteq> [] then given else drop 1 (path_extname env from))
                 in Inr \<lparr>obj_type = Some type, obj_from = Some from,
                         obj_customProperties = None, obj_custom_properties = None\<rparr>)))"

text \<open>
  \<^verbatim>\<open>Object.assign(await customProperties, await loaded)\<close>: the accumulator is awaited
  first and the loader after it; a rejection of either rejects the result.
\<close>

definition assign_awaited ::
  "customProperties promise \<Rightarrow> customProperties promise \<Rightarrow> customProperties promise" where
  "assign_awaited customProperties loaded =
     (case customProperties of
        None \<Rightarrow> None
      | Some (Inl e) \<Rightarrow> Some (Inl e)
      | Some (Inr target) \<Rightarrow>
          (case loaded of
             None \<Rightarrow> None
           | Some (Inl e) \<Rightarrow> Some (Inl e)
           | Some (Inr properties) \<Rightarrow> Some (Inr (Object_assign target [Some properties]))))"

text \<open>
  A file loader applied to the \<^verbatim>\<open>from\<close> of a source; reading or loading \<^verbatim>\<open>undefined\<close>
  raises a TypeError inside the loader's promise.
\<close>

definition load_from ::
  "(string \<Rightarrow> customProperties promise) \<Rightarrow> string option \<Rightarrow> customProperties promise" where
  "load_from loader from = (case from of None \<Rightarrow> Some (Inl TypeError) | Some f \<Rightarrow> loader f)"

text \<open>
  The callback of \<^verbatim>\<open>reduce\<close>: \<^verbatim>\<open>await source\<close> comes first, then the branch on the type.
\<close>

definition sources_reduce_callback ::
  "nat \<Rightarrow> env \<Rightarrow> resolver \<Rightarrow> customProperties promise \<Rightarrow> error + js_object \<Rightarrow> customProperties promise" where
  "sources_reduce_callback fuel env r customProperties source =
     (case source of
        Inl e \<Rightarrow> Some (Inl e)
      | Inr s \<Rightarrow>
          if obj_type s = Some ''css'' then
            assign_awaited customProperties
              (load_from (getCustomPropertiesFromCSSFile fuel env r) (obj_from s))
          else if obj_type s = Some ''js'' then
            assign_awaited customProperties
              (load_from (\<lambda>f. Some (getCustomPropertiesFromJSFile env f)) (obj_from s))
          else if obj_type s = Some ''json'' then
            assign_awaited customProperties
              (load_from (\<lambda>f. Some (getCustomPropertiesFromJSONFile env f)) (obj_from s))
          else
            assign_awaited customProperties (Some (Inr (getCustomPropertiesFromObject s))))"

definition getCustomPropertiesFromSources ::
  "nat \<Rightarrow> env \<Rightarrow> resolver \<Rightarrow> source list \<Rightarrow> customProperties promise" where
  "getCustomPropertiesFromSources fuel env r sources =
     foldl (sources_reduce_callback fuel env r) (Some (Inr Map.empty))
       (map (sources_map_callback env) sources)"

text \<open>
  \<^verbatim>\<open>/(^|[^\w-])var\([\W\w]+\)/\<close>: somewhere \<^verbatim>\<open>var(\<close> stands at the start of the string or
  after a character that is neither a word character nor a dash, and is followed by at
  least one character and then, anywhere later, a closing parenthesis. \<open>boundary\<close> tells
  whether the current position is such a start.
\<close>

fun customPropertyReferenceRegExp_from :: "bool \<Rightarrow> string \<Rightarrow> bool" where
  "customPropertyReferenceRegExp_from boundary [] = False"
| "customPropertyReferenceRegExp_from boundary (c # cs) =
     ((boundary \<and> take 4 (c # cs) = ''var('' \<and>
       (case drop 4 (c # cs) of [] \<Rightarrow> False | x # after \<Rightarrow> CHR 0x29 \<in> set after)) \<or>
      customPropertyReferenceRegExp_from (\<not> (is_word_char c \<or> c = CHR ''-'')) cs)"

definition customPropertyReferenceRegExp :: "string \<Rightarrow> bool" where
  "customPropertyReferenceRegExp s = customPropertyReferenceRegExp_from True s"

definition hasCustomPropertyReference :: "decl \<Rightarrow> bool" where
  "hasCustomPropertyReference decl = customPropertyReferenceRegExp (decl_value decl)"

text \<open>\<^verbatim>\<open>validateDecl\<close>: parse the value, which may throw, and validate the tree.\<close>

definition validateDecl :: "env \<Rightarrow> customProperties \<Rightarrow> decl \<Rightarrow> outcome" where
  "validateDecl env customProperties decl =
     (case values_parse env (decl_value decl) of
        Inl e \<Rightarrow> ([], Some e)
      | Inr valueAST_nodes \<Rightarrow> validateValueAST (ruleMessages env) customProperties decl valueAST_nodes)"

text \<open>\<^verbatim>\<open>validateResult\<close>: every declaration of the stylesheet, in walk order.\<close>

definition validateResult :: "env \<Rightarrow> customProperties \<Rightarrow> root \<Rightarrow> outcome" where
  "validateResult env customProperties r =
     foldl (\<lambda>sofar decl.
              andThen sofar
                (if hasCustomPropertyReference decl then validateDecl env customProperties decl
                 else ([], None)))
       ([], None) (walkDecls (\<lambda>prop. True) r)"

definition isMethodEnabled :: "method_value \<Rightarrow> bool" where
  "isMethodEnabled method = (method = MethodTrue)"

definition isMethodDisabled :: "method_value \<Rightarrow> bool" where
  "isMethodDisabled method = (method = MethodNull \<or> method = MethodFalse)"

text \<open>
  The secondary options after \<^verbatim>\<open>[].concat(Object(opts).importFrom || [])\<close> and
  \<^verbatim>\<open>Object(opts).resolver || {}\<close>.
\<close>

record options =
  importFrom :: "source list"
  options_resolver :: resolver

text \<open>
  The mapping objects that outlive a call live in a store; a reference is an address.
  \<^verbatim>\<open>Object.assign(target, source)\<close> writes into the object at \<open>target\<close> and returns that
  same reference.
\<close>

type_synonym ref = nat

record store =
  objects :: "ref \<Rightarrow> customProperties"
  next_ref :: ref

definition new_object :: "customProperties \<Rightarrow> store \<Rightarrow> ref \<times> store" where
  "new_object content s =
     (next_ref s, s\<lparr>objects := (objects s)(next_ref s := content), next_ref := Suc (next_ref s)\<rparr>)"

definition Object_assign_at :: "ref \<Rightarrow> customProperties option list \<Rightarrow> store \<Rightarrow> ref \<times> store" where
  "Object_assign_at target sources s =
     (target, s\<lparr>objects := (objects s)(target := Object_assign (objects s target) sources)\<rparr>)"

text \<open>
  What the rule function \<^verbatim>\<open>(method, opts) => ...\<close> leaves in the closure of the callback
  it returns. \<open>customPropertiesPromise\<close> settles to the object that
  \<^verbatim>\<open>getCustomPropertiesFromSources\<close> built up (the initial \<^verbatim>\<open>{}\<close> of its \<^verbatim>\<open>reduce\<close>), or it is
  a fresh \<^verbatim>\<open>{}\<close> when the rule is not enabled.
\<close>

record rule =
  rule_method :: method_value
  rule_resolver :: resolver
  customPropertiesPromise :: "ref promise"

definition createRule :: "nat \<Rightarrow> env \<Rightarrow> method_value \<Rightarrow> options \<Rightarrow> store \<Rightarrow> rule \<times> store" where
  "createRule fuel env method opts s =
     (let resolver = options_resolver opts
      in if isMethodEnabled method then
           (case getCustomPropertiesFromSources fuel env resolver (importFrom opts) of
              None \<Rightarrow>
                (\<lparr>rule_method = method, rule_resolver = resolver, customPropertiesPromise = None\<rparr>, s)
            | Some (Inl e) \<Rightarrow>
                (\<lparr>rule_method = method, rule_resolver = resolver,
                  customPropertiesPromise = Some (Inl e)\<rparr>, s)
            | Some (Inr content) \<Rightarrow>
                (case new_object content s of
                   (object, s') \<Rightarrow>
                     (\<lparr>rule_method = method, rule_resolver = resolver,
                       customPropertiesPromise = Some (Inr object)\<rparr>, s')))
         else
           (case new_object Map.empty s of
              (object, s') \<Rightarrow>
                (\<lparr>rule_method = method, rule_resolver = resolver,
                  customPropertiesPromise = Some (Inr object)\<rparr>, s')))"

text \<open>
  \<^verbatim>\<open>Object.assign(await customPropertiesPromise, await getCustomPropertiesFromRoot(root, resolver))\<close>,
  the mapping a stylesheet is validated against: the first operand is awaited first.
\<close>

definition mergedCustomProperties :: "nat \<Rightarrow> env \<Rightarrow> rule \<Rightarrow> root \<Rightarrow> store \<Rightarrow> ref promise \<times> store" where
  "mergedCustomProperties fuel env rl r s =
     (case customPropertiesPromise rl of
        None \<Rightarrow> (None, s)
      | Some (Inl e) \<Rightarrow> (Some (Inl e), s)
      | Some (Inr target) \<Rightarrow>
          (case getCustomPropertiesFromRoot fuel env (rule_resolver rl) r of
             None \<Rightarrow> (None, s)
           | Some fromRoot \<Rightarrow>
               (case Object_assign_at target [Some fromRoot] s of
                  (customProperties, s') \<Rightarrow> (Some (Inr customProperties), s'))))"

text \<open>
  What one call of the rule's callback \<^verbatim>\<open>async (root, result) => ...\<close> does to the result:
  whether \<^verbatim>\<open>validateOptions\<close> found the option invalid (and reported that), the reports
  made, and how the callback's promise ends.
\<close>

record lint =
  invalid_option :: bool
  warnings :: "report list"
  settled :: "unit promise"

definition rule_callback :: "nat \<Rightarrow> env \<Rightarrow> rule \<Rightarrow> root \<Rightarrow> store \<Rightarrow> lint \<times> store" where
  "rule_callback fuel env rl r s =
     (let method = rule_method rl;
          isMethodValid = validateOptions env method (isMethodEnabled method \<or> isMethodDisabled method)
      in if isMethodValid \<and> isMethodEnabled method then
           (case mergedCustomProperties fuel env rl r s of
              (None, s') \<Rightarrow> (\<lparr>invalid_option = False, warnings = [], settled = None\<rparr>, s')
            | (Some (Inl e), s') \<Rightarrow>
                (\<lparr>invalid_option = False, warnings = [], settled = Some (Inl e)\<rparr>, s')
            | (Some (Inr customProperties), s') \<Rightarrow>
                (case validateResult env (objects s' customProperties) r of
                   (reports, thrown) \<Rightarrow>
                     (\<lparr>invalid_option = False, warnings = reports,
                       settled = Some (case thrown of None \<Rightarrow> Inr () | Some e \<Rightarrow> Inl e)\<rparr>, s')))
         else (\<lparr>invalid_option = \<not> isMethodValid, warnings = [], settled = Some (Inr ())\<rparr>, s))"


section \<open>A host for concrete runs\<close>

text \<open>
  Concrete runs need the primitives of the platform. The host below is a POSIX system
  with the working directory \<^verbatim>\<open>/cwd\<close> and the plugin in \<^verbatim>\<open>/plugin\<close>. Its file system is a
  table from absolute, normalized paths to the contents of plain files; there are no
  symbolic links and no \<^verbatim>\<open>package.json\<close> files. The path functions follow the POSIX
  implementations of Node.js.

  \<open>segments\<close> splits a path at its slashes; \<open>posix_normalize\<close> drops empty and \<^verbatim>\<open>.\<close>
  segments and lets \<^verbatim>\<open>..\<close> remove the segment before it (at the root it removes nothing);
  \<open>posix_resolve\<close> is \<^verbatim>\<open>path.resolve(...paths)\<close>: an absolute argument discards what
  stands before it, an empty one is skipped, the rest is appended to the working directory.
\<close>

fun segments :: "string \<Rightarrow> string list" where
  "segments [] = [[]]"
| "segments (c # cs) =
     (if c = CHR ''/'' then [] # segments cs
      else (case segments cs of s # ss \<Rightarrow> (c # s) # ss | [] \<Rightarrow> [[c]]))"

definition posix_normalize :: "string list \<Rightarrow> string list" where
  "posix_normalize segs =
     foldl (\<lambda>stack seg. if seg = [] \<or> seg = ''.'' then stack
                          else if seg = ''..'' then butlast stack
                          else stack @ [seg]) [] segs"

definition posix_join :: "string list \<Rightarrow> string" where
  "posix_join segs = (if segs = [] then ''/'' else concat (map (\<lambda>s. CHR ''/'' # s) segs))"

definition posix_resolve :: "string list \<Rightarrow> string" where
  "posix_resolve parts =
     posix_join (posix_normalize (segments
       (foldl (\<lambda>resolved p. if take 1 p = ''/'' then p
                              else if p = [] then resolved
                              else resolved @ ''/'' @ p) ''/cwd'' parts)))"

text \<open>
  \<^verbatim>\<open>path.dirname\<close>: the path up to the last slash that is followed by a segment, trailing
  slashes and the first character aside; \<^verbatim>\<open>.\<close> or \<^verbatim>\<open>/\<close> when there is no such slash.
\<close>

definition posix_dirname :: "string \<Rightarrow> string" where
  "posix_dirname p =
     (if p = [] then ''.''
      else (let rest = dropWhile (\<lambda>c. c \<noteq> CHR ''/'') (dropWhile (\<lambda>c. c = CHR ''/'') (rev (tl p)))
            in if rest = [] then (if hd p = CHR ''/'' then ''/'' else ''.'')
               else if hd p = CHR ''/'' \<and> tl rest = [] then ''//''
               else hd p # rev (tl rest)))"

text \<open>
  \<^verbatim>\<open>path.extname\<close>: from the last dot of the last segment on; empty when that segment has
  no dot, begins with its only dot, or is \<^verbatim>\<open>..\<close>.
\<close>

definition posix_extname :: "string \<Rightarrow> string" where
  "posix_extname p =
     (let rbase = takeWhile (\<lambda>c. c \<noteq> CHR ''/'') (dropWhile (\<lambda>c. c = CHR ''/'') (rev p));
          rext = takeWhile (\<lambda>c. c \<noteq> CHR ''.'') rbase
      in if CHR ''.'' \<notin> set rbase \<or> drop (Suc (length rext)) rbase = [] \<or> rbase = ''..'' then []
         else CHR ''.'' # rev rext)"

text \<open>
  The \<^verbatim>\<open>resolve\<close> package on this file system. A specifier that looks like a path
  (\<^verbatim>\<open>/^(?:\.\.?(?:\/|$)|\/|([A-Za-z]:)?[/\\])/\<close>) is resolved against the base directory and
  loaded as a file (the path itself, then with each extension) or as a directory (its
  \<^verbatim>\<open>index\<close>). Any other specifier is looked up in the module directories of the base
  directory and of each of its ancestors, then in \<^verbatim>\<open>paths\<close>. The names of the core modules
  of Node.js are not special here.
\<close>

definition is_path :: "string \<Rightarrow> bool" where
  "is_path x =
     (x = ''.'' \<or> x = ''..'' \<or> take 2 x = ''./'' \<or> take 3 x = ''../'' \<or>
      take 1 x = ''/'' \<or> take 1 x = [CHR 0x5C] \<or>
      (case x of
         d # c # s # rest \<Rightarrow>
           (let k = (of_char d :: nat)
            in ((65 \<le> k \<and> k \<le> 90) \<or> (97 \<le> k \<and> k \<le> 122)) \<and> c = CHR '':'' \<and>
               (s = CHR ''/'' \<or> s = CHR 0x5C))
       | _ \<Rightarrow> False))"

fun suffixes_of :: "'a list \<Rightarrow> 'a list list" where
  "suffixes_of [] = [[]]"
| "suffixes_of (x # xs) = (x # xs) # suffixes_of xs"

definition ancestors :: "string \<Rightarrow> string list" where
  "ancestors dir =
     map (\<lambda>segs. posix_join (rev segs))
       (suffixes_of (rev (posix_normalize (segments (posix_resolve [dir])))))"

fun first_some :: "('a \<Rightarrow> 'b option) \<Rightarrow> 'a list \<Rightarrow> 'b option" where
  "first_some f [] = None"
| "first_some f (x # xs) = (case f x of Some y \<Rightarrow> Some y | None \<Rightarrow> first_some f xs)"

definition host_resolve :: "(string \<times> string) list \<Rightarrow> string \<Rightarrow> resolveOpts \<Rightarrow> string option" where
  "host_resolve files x opts =
     (let isFile = (\<lambda>file. map_of files file \<noteq> None);
          loadAsFile = (\<lambda>p. find isFile (p # map (\<lambda>ext. p @ ext) (extensions opts)));
          loadAsDirectory = (\<lambda>p. loadAsFile (posix_resolve [p, ''index'']));
          load = (\<lambda>p. case loadAsFile p of Some file \<Rightarrow> Some file | None \<Rightarrow> loadAsDirectory p);
          dirs = concat (map (\<lambda>dir. map (\<lambda>moduleDir. posix_resolve [dir, moduleDir])
                                        (moduleDirectory opts))
                          (ancestors (basedir opts))) @ paths opts
      in if is_path x then
           (let res = posix_resolve [basedir opts, x] @
                      (if x = ''.'' \<or> x = ''..'' \<or> take 1 (rev x) = ''/'' then ''/'' else [])
            in if take 1 (rev x) = ''/'' \<and> res = basedir opts then loadAsDirectory res else load res)
         else first_some (\<lambda>dir. load (posix_resolve [dir, x])) dirs)"

text \<open>
  The host, from the table of files, a table that stands for the stylesheet parser (the
  tree of each content that is a stylesheet; any other content is a syntax error) and a
  table that stands for the value parser. No file of the host holds JSON or a module.
  \<^verbatim>\<open>ruleMessages\<close> and \<^verbatim>\<open>validateOptions\<close> are those of stylelint 14: the latter accepts
  \<^verbatim>\<open>null\<close>, refuses \<^verbatim>\<open>false\<close>, and otherwise asks \<^verbatim>\<open>possible\<close>.
\<close>

definition host ::
  "(string \<times> string) list \<Rightarrow> (string \<times> css_node list) list \<Rightarrow> (string \<times> node list) list \<Rightarrow> env" where
  "host files stylesheets values =
     \<lparr>readFile = (\<lambda>from. if take 1 (rev from) = ''/'' then None else map_of files (posix_resolve [from])),
      postcss_parse =
        (\<lambda>css from. map_option (\<lambda>ns. \<lparr>root_file = Some (posix_resolve [from]), root_nodes = ns\<rparr>)
                       (map_of stylesheets css)),
      resolve = host_resolve files,
      path_isAbsolute = (\<lambda>p. take 1 p = ''/''),
      path_dirname = posix_dirname,
      path_resolve = (\<lambda>p. posix_resolve [p]),
      path_extname = posix_extname,
      dirname = ''/plugin'',
      JSON_parse = (\<lambda>text. None),
      import_module = (\<lambda>from. None),
      values_parse = (\<lambda>text. case map_of values text of None \<Rightarrow> Inr (Some []) | Some ns \<Rightarrow> Inr (Some ns)),
      ruleMessages = stylelint_ruleMessages,
      validateOptions = (\<lambda>actual possible. actual = MethodNull \<or> (actual \<noteq> MethodFalse \<and> possible))\<rparr>"

section \<open>Definitions used to state the claims\<close>

text \<open>
  The mapping one normalized source contributes: the loader that the callback of
  \<^verbatim>\<open>reduce\<close> selects for it.
\<close>

definition source_mapping :: "nat \<Rightarrow> env \<Rightarrow> resolver \<Rightarrow> error + js_object \<Rightarrow> customProperties promise" where
  "source_mapping fuel env r source =
     (case source of
        Inl e \<Rightarrow> Some (Inl e)
      | Inr s \<Rightarrow>
          if obj_type s = Some ''css'' then load_from (getCustomPropertiesFromCSSFile fuel env r) (obj_from s)
          else if obj_type s = Some ''js'' then
            load_from (\<lambda>f. Some (getCustomPropertiesFromJSFile env f)) (obj_from s)
          else if obj_type s = Some ''json'' then
            load_from (\<lambda>f. Some (getCustomPropertiesFromJSONFile env f)) (obj_from s)
          else Some (Inr (getCustomPropertiesFromObject s)))"

text \<open>Resolver options with nothing set, and a store with no object in it.\<close>

definition no_resolver :: resolver where
  "no_resolver = \<lparr>resolver_paths = None, resolver_moduleDirectories = None, resolver_extensions = None\<rparr>"

definition empty_store :: store where
  "empty_store = \<lparr>objects = (\<lambda>object. Map.empty), next_ref = 0\<rparr>"

text \<open>
  File A (\<^verbatim>\<open>/css/a.css\<close>) imports \<^verbatim>\<open>'./b.css'\<close> and \<^verbatim>\<open>'/lib/c.css'\<close> and declares \<^verbatim>\<open>--x: 1\<close>;
  file B declares \<^verbatim>\<open>--x: 2\<close>, \<^verbatim>\<open>--y: 3\<close> and \<^verbatim>\<open>--w: 7\<close>; file C declares \<^verbatim>\<open>--y: 4\<close> and
  \<^verbatim>\<open>--z: 5\<close>.
\<close>

definition stylesheet_a :: "css_node list" where
  "stylesheet_a =
     [AtRule ''import'' (CHR 0x27 # ''./b.css'' @ [CHR 0x27]) [],
      AtRule ''import'' (CHR 0x27 # ''/lib/c.css'' @ [CHR 0x27]) [],
      Rule '':root'' [Decl \<lparr>decl_prop = ''--x'', decl_value = ''1''\<rparr>]]"

definition stylesheet_b :: "css_node list" where
  "stylesheet_b =
     [Rule '':root'' [Decl \<lparr>decl_prop = ''--x'', decl_value = ''2''\<rparr>,
                      Decl \<lparr>decl_prop = ''--y'', decl_value = ''3''\<rparr>,
                      Decl \<lparr>decl_prop = ''--w'', decl_value = ''7''\<rparr>]]"

definition stylesheet_c :: "css_node list" where
  "stylesheet_c =
     [Rule '':root'' [Decl \<lparr>decl_prop = ''--y'', decl_value = ''4''\<rparr>,
                      Decl \<lparr>decl_prop = ''--z'', decl_value = ''5''\<rparr>]]"

definition import_host :: env where
  "import_host =
     host [(''/css/a.css'', ''A''), (''/css/b.css'', ''B''), (''/lib/c.css'', ''C'')]
       [(''A'', stylesheet_a), (''B'', stylesheet_b), (''C'', stylesheet_c)]
       []"

definition importing_stylesheet :: root where
  "importing_stylesheet = \<lparr>root_file = Some ''/css/a.css'', root_nodes = stylesheet_a\<rparr>"

text \<open>
  One enabled rule without configured sources and two stylesheets: the first declares
  \<^verbatim>\<open>--a\<close>, the second uses \<^verbatim>\<open>var(--a)\<close> and declares nothing.
\<close>

definition shared_host :: env where
  "shared_host = host [] [] [(''var(--a)'', [func ''var'' [word_node ''--a'' True]])]"

definition declaring_stylesheet :: root where
  "declaring_stylesheet =
     \<lparr>root_file = None,
      root_nodes = [Rule '':root'' [Decl \<lparr>decl_prop = ''--a'', decl_value = ''1''\<rparr>]]\<rparr>"

definition using_stylesheet :: root where
  "using_stylesheet =
     \<lparr>root_file = None,
      root_nodes = [Rule ''.y'' [Decl \<lparr>decl_prop = ''color'', decl_value = ''var(--a)''\<rparr>]]\<rparr>"

definition shared_rule :: "rule \<times> store" where
  "shared_rule =
     createRule 1 shared_host MethodTrue \<lparr>importFrom = [], options_resolver = no_resolver\<rparr> empty_store"

section \<open>Properties of the validator\<close>

lemma andThen_None [simp]: "andThen (ds, None) b = (ds @ fst b, snd b)"
  by (simp add: andThen_def)

lemma andThen_Some [simp]: "andThen (ds, Some e) b = (ds, Some e)"
  by (simp add: andThen_def)

lemma andThen_nil_right [simp]: "andThen a ([], None) = a"
  by (cases a) (simp add: andThen_def split: option.splits)

lemma andThen_nil_left [simp]: "andThen ([], None) b = b"
  by (simp add: andThen_def)

lemma andThen_assoc: "andThen (andThen a b) c = andThen a (andThen b c)"
  by (cases a; cases b) (auto simp: andThen_def split: option.splits)

lemma andThen_complete:
  "andThen a b = (ds, None) \<longleftrightarrow> (\<exists>d1 d2. a = (d1, None) \<and> b = (d2, None) \<and> ds = d1 @ d2)"
  by (cases a; cases b) (auto simp: andThen_def split: option.splits)

lemma validate_Cons:
  "validateValueAST rm cp decl (Some (n # ns)) =
     andThen (validateValueAST rm cp decl (Some [n])) (validateValueAST rm cp decl (Some ns))"
  by simp

lemma validate_append:
  "validateValueAST rm cp decl (Some (xs @ ys)) =
     andThen (validateValueAST rm cp decl (Some xs)) (validateValueAST rm cp decl (Some ys))"
proof (induction xs)
  case Nil
  show ?case by simp
next
  case (Cons x xs)
  have "validateValueAST rm cp decl (Some ((x # xs) @ ys)) =
        andThen (validateValueAST rm cp decl (Some [x])) (validateValueAST rm cp decl (Some (xs @ ys)))"
    using validate_Cons [of rm cp decl x "xs @ ys"] by simp
  also have "\<dots> = andThen (andThen (validateValueAST rm cp decl (Some [x])) (validateValueAST rm cp decl (Some xs)))
                       (validateValueAST rm cp decl (Some ys))"
    by (simp only: Cons.IH andThen_assoc)
  also have "\<dots> = andThen (validateValueAST rm cp decl (Some (x # xs))) (validateValueAST rm cp decl (Some ys))"
    using validate_Cons [of rm cp decl x xs] by simp
  finally show ?case .
qed

lemma validate_single_error:
  "isVarFunction n = Inl e \<Longrightarrow> validateValueAST rm cp decl (Some [n]) = ([], Some e)"
  by simp

lemma validate_single_other:
  "isVarFunction n = Inr False \<Longrightarrow>
   validateValueAST rm cp decl (Some [n]) = validateValueAST rm cp decl (nodes n)"
  by simp

lemma validate_single_var:
  "isVarFunction n = Inr True \<Longrightarrow> nodes n = Some (p # args) \<Longrightarrow>
   validateValueAST rm cp decl (Some [n]) =
     (if cp (node_value p) \<noteq> None then ([], None)
      else if drop 1 args \<noteq> [] then
        (case filter_isVarFunction (drop 1 args) of
           Inl e \<Rightarrow> ([], Some e)
         | Inr vars \<Rightarrow> validateValueAST rm cp decl (Some vars))
      else ([\<lparr>message = rm ruleName unexpected (node_value p) (decl_prop decl),
              report_node = decl, report_ruleName = ruleName, word = node_value p\<rparr>], None))"
  by (simp add: Let_def)


lemma filter_isVarFunction_append:
  "filter_isVarFunction (xs @ ys) =
     (case filter_isVarFunction xs of
        Inl e \<Rightarrow> Inl e
      | Inr a \<Rightarrow> (case filter_isVarFunction ys of Inl e \<Rightarrow> Inl e | Inr b \<Rightarrow> Inr (a @ b)))"
  by (induction xs) (auto split: sum.splits)

lemma isVarFunction_Node_Cons:
  "isVarFunction (Node t n val iv (Some (c # cs))) =
     Inr (t = ''func'' \<and> n = ''var'' \<and> isVariable c)"
  by (auto simp: isVarFunction_def)

declare validateValueAST.simps(3) [simp del]

lemma validate_fallbacks_same:
  assumes "same_walk rm cp decl X Y"
  shows "(case filter_isVarFunction (fpre @ X # post) of
           Inl e \<Rightarrow> ([], Some e)
         | Inr vars \<Rightarrow> validateValueAST rm cp decl (Some vars)) =
         (case filter_isVarFunction (fpre @ Y # post) of
           Inl e \<Rightarrow> ([], Some e)
         | Inr vars \<Rightarrow> validateValueAST rm cp decl (Some vars))"
proof (cases "filter_isVarFunction fpre")
  case (Inl e)
  then show ?thesis by (simp add: filter_isVarFunction_append)
next
  case pre: (Inr a)
  show ?thesis
  proof (cases "isVarFunction X = isVarFunction Y")
    case True
    show ?thesis
    proof (cases "isVarFunction X")
      case (Inl e)
      then have "isVarFunction Y = Inl e" using True by simp
      with Inl pre show ?thesis by (simp add: filter_isVarFunction_append)
    next
      case (Inr k)
      then have Y: "isVarFunction Y = Inr k" using True by simp
      have XY: "validateValueAST rm cp decl (Some [X]) = validateValueAST rm cp decl (Some [Y])"
        using assms by (simp add: same_walk_def)
      show ?thesis
      proof (cases "filter_isVarFunction post")
        case (Inl e)
        with Y pre Inr show ?thesis by (simp add: filter_isVarFunction_append)
      next
        case post: (Inr b)
        have "validateValueAST rm cp decl (Some (a @ X # b)) = validateValueAST rm cp decl (Some (a @ Y # b))"
          using XY validate_append [of rm cp decl a "X # b"] validate_append [of rm cp decl a "Y # b"]
            validate_Cons [of rm cp decl X b] validate_Cons [of rm cp decl Y b] by simp
        with Y pre Inr post show ?thesis by (simp add: filter_isVarFunction_append)
      qed
    qed
  next
    case False
    then have X: "isVarFunction X = Inr True" and Y: "isVarFunction Y = Inr False"
      and nil: "validateValueAST rm cp decl (Some [X]) = ([], None)"
      using assms by (auto simp: same_walk_def)
    show ?thesis
    proof (cases "filter_isVarFunction post")
      case (Inl e)
      with X Y pre show ?thesis by (simp add: filter_isVarFunction_append)
    next
      case post: (Inr b)
      have "validateValueAST rm cp decl (Some (a @ X # b)) = validateValueAST rm cp decl (Some (a @ b))"
        using nil validate_append [of rm cp decl a "X # b"] validate_append [of rm cp decl a b]
          validate_Cons [of rm cp decl X b] by simp
      with X Y pre post show ?thesis by (simp add: filter_isVarFunction_append)
    qed
  qed
qed

lemma same_walk_frame:
  assumes "same_walk rm cp decl X Y"
  shows "same_walk rm cp decl (Node t n val iv (Some (pre @ X # post)))
                              (Node t n val iv (Some (pre @ Y # post)))"
proof -
  let ?P = "Node t n val iv (Some (pre @ X # post))"
  let ?Q = "Node t n val iv (Some (pre @ Y # post))"
  have flag: "isVariable X = isVariable Y" and nm: "node_value X = node_value Y"
    and XY: "validateValueAST rm cp decl (Some [X]) = validateValueAST rm cp decl (Some [Y])"
    using assms by (simp_all add: same_walk_def)
  have iv: "isVarFunction ?P = isVarFunction ?Q"
    using flag by (cases pre) (simp_all add: isVarFunction_Node_Cons)
  have children: "validateValueAST rm cp decl (Some (pre @ X # post)) =
                  validateValueAST rm cp decl (Some (pre @ Y # post))"
    using XY validate_append [of rm cp decl pre "X # post"] validate_append [of rm cp decl pre "Y # post"]
      validate_Cons [of rm cp decl X post] validate_Cons [of rm cp decl Y post] by simp
  consider (err) e where "isVarFunction ?P = Inl e"
    | (other) "isVarFunction ?P = Inr False"
    | (var) "isVarFunction ?P = Inr True"
    by (cases "isVarFunction ?P") auto
  then have "validateValueAST rm cp decl (Some [?P]) = validateValueAST rm cp decl (Some [?Q])"
  proof cases
    case err
    then have "isVarFunction ?Q = Inl e" using iv by simp
    with err show ?thesis by (simp add: validate_single_error)
  next
    case other
    then have "isVarFunction ?Q = Inr False" using iv by simp
    with other children show ?thesis by (simp add: validate_single_other)
  next
    case var
    then have Q: "isVarFunction ?Q = Inr True" using iv by simp
    show ?thesis
    proof (cases pre)
      case Nil
      with var Q nm show ?thesis
        by (simp add: validate_single_var [where p = X and args = post]
            validate_single_var [where p = Y and args = post])
    next
      case (Cons a pre')
      show ?thesis
      proof (cases pre')
        case Nil
        with Cons var Q show ?thesis
          by (simp add: validate_single_var [where p = a and args = "X # post"]
              validate_single_var [where p = a and args = "Y # post"])
      next
        case (Cons b fpre)
        with \<open>pre = a # pre'\<close> var Q validate_fallbacks_same [OF assms, of fpre post] show ?thesis
          by (simp add: validate_single_var [where p = a and args = "b # fpre @ X # post"]
              validate_single_var [where p = a and args = "b # fpre @ Y # post"])
      qed
    qed
  qed
  with iv show ?thesis by (simp add: same_walk_def)
qed

lemma same_walk_plug:
  "same_walk rm cp decl X Y \<Longrightarrow> same_walk rm cp decl (plug fs X) (plug fs Y)"
proof (induction fs)
  case Nil
  then show ?case by simp
next
  case (Cons f fs)
  then show ?case by (cases f) (simp add: same_walk_frame)
qed


lemma validate_middle:
  "validateValueAST rm cp decl (Some (a @ X # b)) =
     andThen (validateValueAST rm cp decl (Some a))
       (andThen (validateValueAST rm cp decl (Some [X])) (validateValueAST rm cp decl (Some b)))"
  using validate_append [of rm cp decl a "X # b"] validate_Cons [of rm cp decl X b] by simp

lemma splices_list:
  assumes "splices rm cp decl c X Y"
    and "validateValueAST rm cp decl (Some (a @ X # b)) = (ds, None)"
  shows "\<exists>A B. ds = A @ c @ B \<and> validateValueAST rm cp decl (Some (a @ Y # b)) = (A @ B, None)"
proof -
  obtain d1 d2 d3 where a: "validateValueAST rm cp decl (Some a) = (d1, None)"
    and X: "validateValueAST rm cp decl (Some [X]) = (d2, None)"
    and b: "validateValueAST rm cp decl (Some b) = (d3, None)"
    and ds: "ds = d1 @ d2 @ d3"
    using assms(2) unfolding validate_middle andThen_complete by auto
  obtain A B where d2: "d2 = A @ c @ B"
    and Y: "validateValueAST rm cp decl (Some [Y]) = (A @ B, None)"
    using assms(1) X unfolding splices_def by blast
  have "validateValueAST rm cp decl (Some (a @ Y # b)) = ((d1 @ A) @ (B @ d3), None)"
    unfolding validate_middle using a Y b by simp
  moreover have "ds = (d1 @ A) @ c @ (B @ d3)"
    using ds d2 by simp
  ultimately show ?thesis by blast
qed

lemma splices_dropped:
  assumes X: "validateValueAST rm cp decl (Some [X]) = (c, None)"
    and "validateValueAST rm cp decl (Some (a @ X # b)) = (ds, None)"
  shows "\<exists>A B. ds = A @ c @ B \<and> validateValueAST rm cp decl (Some (a @ b)) = (A @ B, None)"
proof -
  obtain d1 d3 where a: "validateValueAST rm cp decl (Some a) = (d1, None)"
    and b: "validateValueAST rm cp decl (Some b) = (d3, None)"
    and ds: "ds = d1 @ c @ d3"
    using assms(2) X unfolding validate_middle andThen_complete by auto
  have "validateValueAST rm cp decl (Some (a @ b)) = (d1 @ d3, None)"
    unfolding validate_append using a b by simp
  with ds show ?thesis by blast
qed

lemma filter_isVarFunction_middle:
  assumes "filter_isVarFunction (a @ X # b) = Inr vars"
  shows "\<exists>a' b' k. filter_isVarFunction a = Inr a' \<and> filter_isVarFunction b = Inr b' \<and>
           isVarFunction X = Inr k \<and> vars = a' @ (if k then [X] else []) @ b'"
proof -
  obtain a' where a': "filter_isVarFunction a = Inr a'"
    using assms by (cases "filter_isVarFunction a") (simp_all add: filter_isVarFunction_append)
  obtain k where k: "isVarFunction X = Inr k"
    using assms a' by (cases "isVarFunction X") (simp_all add: filter_isVarFunction_append)
  obtain b' where b': "filter_isVarFunction b = Inr b'"
    using assms a' k by (cases "filter_isVarFunction b") (simp_all add: filter_isVarFunction_append)
  have "vars = a' @ (if k then [X] else []) @ b'"
    using assms a' k b' by (cases k) (auto simp: filter_isVarFunction_append)
  with a' k b' show ?thesis by blast
qed

lemma splices_frame:
  assumes S: "splices rm cp decl c X Y"
    and pos: "isVarFunction (Node t n val iv (Some (pre @ X # post))) = Inr False \<or>
              (isVarFunction (Node t n val iv (Some (pre @ X # post))) = Inr True \<and>
               (\<exists>p sep fpre. pre = p # sep # fpre \<and> cp (node_value p) = None) \<and>
               isVarFunction X = Inr True)"
  shows "splices rm cp decl c (Node t n val iv (Some (pre @ X # post)))
                              (Node t n val iv (Some (pre @ Y # post)))"
proof -
  let ?P = "Node t n val iv (Some (pre @ X # post))"
  let ?Q = "Node t n val iv (Some (pre @ Y # post))"
  have flag: "isVariable X = isVariable Y"
    using S by (simp add: splices_def)
  have iv: "isVarFunction ?P = isVarFunction ?Q"
    using flag by (cases pre) (simp_all add: isVarFunction_Node_Cons)
  have "\<exists>A B. ds = A @ c @ B \<and> validateValueAST rm cp decl (Some [?Q]) = (A @ B, None)"
    if run: "validateValueAST rm cp decl (Some [?P]) = (ds, None)" for ds
    using pos
  proof
    assume other: "isVarFunction ?P = Inr False"
    then have "isVarFunction ?Q = Inr False" using iv by simp
    with other run splices_list [OF S, of pre post ds] show ?thesis
      by (simp add: validate_single_other)
  next
    assume "isVarFunction ?P = Inr True \<and>
            (\<exists>p sep fpre. pre = p # sep # fpre \<and> cp (node_value p) = None) \<and>
            isVarFunction X = Inr True"
    then obtain p sep fpre where var: "isVarFunction ?P = Inr True"
      and pre: "pre = p # sep # fpre" and unknown: "cp (node_value p) = None"
      and X: "isVarFunction X = Inr True"
      by blast
    have Q: "isVarFunction ?Q = Inr True" using var iv by simp
    have P_run: "validateValueAST rm cp decl (Some [?P]) =
        (case filter_isVarFunction (fpre @ X # post) of
           Inl e \<Rightarrow> ([], Some e)
         | Inr vars \<Rightarrow> validateValueAST rm cp decl (Some vars))"
      using var pre unknown
      by (simp add: validate_single_var [where p = p and args = "sep # fpre @ X # post"])
    have Q_run: "validateValueAST rm cp decl (Some [?Q]) =
        (case filter_isVarFunction (fpre @ Y # post) of
           Inl e \<Rightarrow> ([], Some e)
         | Inr vars \<Rightarrow> validateValueAST rm cp decl (Some vars))"
      using Q pre unknown
      by (simp add: validate_single_var [where p = p and args = "sep # fpre @ Y # post"])
    obtain vars where vars: "filter_isVarFunction (fpre @ X # post) = Inr vars"
      and vrun: "validateValueAST rm cp decl (Some vars) = (ds, None)"
      using run unfolding P_run by (cases "filter_isVarFunction (fpre @ X # post)") auto
    obtain a' b' where a': "filter_isVarFunction fpre = Inr a'"
      and b': "filter_isVarFunction post = Inr b'" and vars_eq: "vars = a' @ X # b'"
      using filter_isVarFunction_middle [OF vars] X by auto
    show ?thesis
    proof (cases "isVarFunction Y = Inr True")
      case True
      then have "filter_isVarFunction (fpre @ Y # post) = Inr (a' @ Y # b')"
        using a' b' by (simp add: filter_isVarFunction_append)
      with splices_list [OF S, of a' b' ds] vrun vars_eq show ?thesis
        unfolding Q_run by simp
    next
      case False
      then have Y: "isVarFunction Y = Inr False"
        and Xc: "validateValueAST rm cp decl (Some [X]) = (c, None)"
        using S X by (auto simp: splices_def)
      have "filter_isVarFunction (fpre @ Y # post) = Inr (a' @ b')"
        using a' b' Y by (simp add: filter_isVarFunction_append)
      with splices_dropped [OF Xc, of a' b' ds] vrun vars_eq show ?thesis
        unfolding Q_run by simp
    qed
  qed
  with flag iv show ?thesis by (simp add: splices_def)
qed

lemma splices_plug:
  assumes "splices rm cp decl c v w" and "visited cp fs v"
  shows "splices rm cp decl c (plug fs v) (plug fs w)"
  using assms(2)
proof (induction fs)
  case Nil
  with assms(1) show ?case by simp
next
  case (Cons f fs)
  obtain t n val iv pre post where f: "f = Frame t n val iv pre post"
    by (cases f)
  have inner: "splices rm cp decl c (plug fs v) (plug fs w)"
    using Cons by simp
  have "isVarFunction (Node t n val iv (Some (pre @ plug fs v # post))) = Inr False \<or>
        (isVarFunction (Node t n val iv (Some (pre @ plug fs v # post))) = Inr True \<and>
         (\<exists>p sep fpre. pre = p # sep # fpre \<and> cp (node_value p) = None) \<and>
         isVarFunction (plug fs v) = Inr True)"
    using Cons.prems unfolding f
    by (auto split: sum.splits bool.splits list.splits)
  from splices_frame [OF inner this] show ?case
    by (simp add: f)
qed

lemma isVarFunction_inert: "isVarFunction (inert v) = Inr False"
  by (simp add: isVarFunction_def inert_def)

lemma validate_inert: "validateValueAST rm cp decl (Some [inert v]) = ([], None)"
  by (simp add: validate_single_other isVarFunction_inert) (simp add: inert_def)

lemma same_walk_known:
  assumes "isVarFunction v = Inr True" and "nodes v = Some (p # args)" and "cp (node_value p) \<noteq> None"
  shows "same_walk rm cp decl v (inert v)"
  using assms validate_single_var [OF assms(1,2), of rm cp decl]
  by (simp add: same_walk_def validate_inert isVarFunction_inert) (simp add: inert_def)

lemma splices_unknown:
  assumes "isVarFunction v = Inr True" and "nodes v = Some (p # args)"
    and "cp (node_value p) = None" and "length args \<le> 1"
  shows "splices rm cp decl
           [\<lparr>message = rm ruleName unexpected (node_value p) (decl_prop decl),
             report_node = decl, report_ruleName = ruleName, word = node_value p\<rparr>]
           v (inert v)"
proof -
  have "drop 1 args = []" using assms(4) by simp
  then have run: "validateValueAST rm cp decl (Some [v]) =
      ([\<lparr>message = rm ruleName unexpected (node_value p) (decl_prop decl),
         report_node = decl, report_ruleName = ruleName, word = node_value p\<rparr>], None)"
    using validate_single_var [OF assms(1,2), of rm cp decl] assms(3) by simp
  have "isVariable v = isVariable (inert v)" by (simp add: inert_def)
  then show ?thesis
    unfolding splices_def using run assms(1) by (simp add: validate_inert isVarFunction_inert)
qed

lemma filter_isVarFunction_none:
  "\<forall>f \<in> set fs. isVarFunction f = Inr False \<Longrightarrow> filter_isVarFunction fs = Inr []"
  by (induction fs) simp_all

lemma guarded_isVarFunction: "guarded n \<Longrightarrow> \<exists>b. isVarFunction n = Inr b"
  by (cases n) (auto simp: isVarFunction_def split: option.splits list.splits)

lemma guarded_children: "guarded n \<Longrightarrow> nodes n = Some cs \<Longrightarrow> c \<in> set cs \<Longrightarrow> guarded c"
  by (cases n) auto

lemma filter_isVarFunction_subset:
  "filter_isVarFunction xs = Inr ys \<Longrightarrow> set ys \<subseteq> set xs"
  by (induction xs arbitrary: ys) (auto split: sum.splits if_splits)

lemma filter_isVarFunction_guarded:
  "\<forall>x \<in> set xs. guarded x \<Longrightarrow> \<exists>ys. filter_isVarFunction xs = Inr ys"
proof (induction xs)
  case Nil
  show ?case by simp
next
  case (Cons x xs)
  then obtain b ys where "isVarFunction x = Inr b" "filter_isVarFunction xs = Inr ys"
    using guarded_isVarFunction [of x] by auto
  then show ?case by simp
qed

lemma andThen_snd_None: "snd a = None \<Longrightarrow> snd b = None \<Longrightarrow> snd (andThen a b) = None"
  by (cases a) (simp add: andThen_def)

lemma guarded_total:
  "(case ast_nodes of None \<Rightarrow> True | Some ns \<Rightarrow> \<forall>n \<in> set ns. guarded n) \<Longrightarrow>
   snd (validateValueAST rm cp decl ast_nodes) = None"
proof (induction rm cp decl ast_nodes rule: validateValueAST.induct)
  case (1 rm cp decl)
  show ?case by simp
next
  case (2 rm cp decl)
  show ?case by simp
next
  case (3 rm cp decl node rest)
  have g: "guarded node" and grest: "\<forall>n \<in> set rest. guarded n"
    using "3.prems" by simp_all
  have rest: "snd (validateValueAST rm cp decl (Some rest)) = None"
    using "3.IH"(3) grest by simp
  obtain b where b: "isVarFunction node = Inr b"
    using guarded_isVarFunction [OF g] by blast
  have "snd (validateValueAST rm cp decl (Some [node])) = None"
  proof (cases b)
    case False
    have "case nodes node of None \<Rightarrow> True | Some ns \<Rightarrow> \<forall>n \<in> set ns. guarded n"
      using guarded_children [OF g] by (auto split: option.splits)
    with "3.IH"(2) b False show ?thesis
      by (simp add: validate_single_other)
  next
    case True
    with b have var: "isVarFunction node = Inr True" by simp
    then obtain p args where children: "nodes node = Some (p # args)"
      by (cases node) (auto simp: isVarFunction_def split: if_splits option.splits list.splits)
    show ?thesis
    proof (cases "cp (node_value p) = None \<and> drop 1 args \<noteq> []")
      case False
      then show ?thesis
        unfolding validate_single_var [OF var children, of rm cp decl]
        by (cases "cp (node_value p) = None") simp_all
    next
      case unknown: True
      have "\<forall>x \<in> set (drop 1 args). guarded x"
        using guarded_children [OF g children] by (auto dest: in_set_dropD)
      then obtain vars where vars: "filter_isVarFunction (drop 1 args) = Inr vars"
        and gv: "\<forall>x \<in> set vars. guarded x"
        using filter_isVarFunction_guarded [of "drop 1 args"] filter_isVarFunction_subset
        by blast
      have "snd (validateValueAST rm cp decl (Some vars)) = None"
        using "3.IH"(1) [of b "p # args" p args "node_value p" "drop 1 args" vars]
          b True children unknown vars gv by simp
      then show ?thesis
        using validate_single_var [OF var children, of rm cp decl] unknown vars by simp
    qed
  qed
  with rest show ?case
    using validate_Cons [of rm cp decl node rest] by (simp add: andThen_snd_None)
qed

lemma isVarFunction_error: "isVarFunction n = Inl e \<Longrightarrow> e = TypeError"
  by (auto simp: isVarFunction_def split: if_splits option.splits list.splits)

lemma filter_isVarFunction_error: "filter_isVarFunction xs = Inl e \<Longrightarrow> e = TypeError"
  by (induction xs) (auto split: sum.splits dest: isVarFunction_error)

lemma andThen_snd_Some: "snd (andThen a b) = Some e \<Longrightarrow> snd a = Some e \<or> snd b = Some e"
  by (cases a) (auto simp: andThen_def split: option.splits)

lemma isVarFunction_True_children:
  "isVarFunction n = Inr True \<Longrightarrow> \<exists>p args. nodes n = Some (p # args) \<and> isVariable p"
  by (cases n) (auto simp: isVarFunction_def split: if_splits option.splits list.splits)

lemma validate_error_is_TypeError:
  "snd (validateValueAST rm cp decl ast_nodes) = Some e \<Longrightarrow> e = TypeError"
proof (induction rm cp decl ast_nodes rule: validateValueAST.induct)
  case (1 rm cp decl)
  then show ?case by simp
next
  case (2 rm cp decl)
  then show ?case by simp
next
  case (3 rm cp decl node rest)
  from "3.prems" have "snd (validateValueAST rm cp decl (Some [node])) = Some e \<or>
                       snd (validateValueAST rm cp decl (Some rest)) = Some e"
    using validate_Cons [of rm cp decl node rest] andThen_snd_Some by metis
  then show ?case
  proof
    assume "snd (validateValueAST rm cp decl (Some rest)) = Some e"
    then show ?thesis by (rule "3.IH"(3))
  next
    assume single: "snd (validateValueAST rm cp decl (Some [node])) = Some e"
    consider (err) e' where "isVarFunction node = Inl e'"
      | (other) "isVarFunction node = Inr False"
      | (var) "isVarFunction node = Inr True"
      by (cases "isVarFunction node") auto
    then show ?thesis
    proof cases
      case err
      with single isVarFunction_error [OF err] show ?thesis
        by (simp add: validate_single_error)
    next
      case other
      with single "3.IH"(2) [of False] show ?thesis
        by (simp add: validate_single_other)
    next
      case var
      then obtain p args where children: "nodes node = Some (p # args)"
        using isVarFunction_True_children by blast
      note run = validate_single_var [OF var children, of rm cp decl]
      show ?thesis
      proof (cases "cp (node_value p) = None \<and> drop 1 args \<noteq> []")
        case False
        then have "snd (validateValueAST rm cp decl (Some [node])) = None"
          unfolding run by (cases "cp (node_value p) = None") simp_all
        with single show ?thesis by simp
      next
        case unknown: True
        show ?thesis
        proof (cases "filter_isVarFunction (drop 1 args)")
          case (Inl e')
          with single run unknown filter_isVarFunction_error [OF Inl] show ?thesis by simp
        next
          case (Inr vars)
          with single run unknown
          have "snd (validateValueAST rm cp decl (Some vars)) = Some e" by simp
          with "3.IH"(1) [of True "p # args" p args "node_value p" "drop 1 args" vars]
            var children unknown Inr show ?thesis by simp
        qed
      qed
    qed
  qed
qed

lemma raise_middle:
  assumes "snd (validateValueAST rm cp decl (Some [X])) = Some TypeError"
  shows "snd (validateValueAST rm cp decl (Some (a @ X # b))) = Some TypeError"
proof (cases "snd (validateValueAST rm cp decl (Some a))")
  case None
  then obtain d where "validateValueAST rm cp decl (Some a) = (d, None)"
    by (cases "validateValueAST rm cp decl (Some a)") simp
  moreover obtain d' where "validateValueAST rm cp decl (Some [X]) = (d', Some TypeError)"
    using assms by (cases "validateValueAST rm cp decl (Some [X])") simp
  ultimately show ?thesis
    by (simp add: validate_middle)
next
  case (Some e)
  then have "e = TypeError" by (rule validate_error_is_TypeError)
  with Some obtain d where "validateValueAST rm cp decl (Some a) = (d, Some TypeError)"
    by (cases "validateValueAST rm cp decl (Some a)") simp
  then show ?thesis
    by (simp add: validate_middle)
qed

lemma raise_plug:
  assumes "snd (validateValueAST rm cp decl (Some [v])) = Some TypeError" and "visited cp fs v"
  shows "snd (validateValueAST rm cp decl (Some [plug fs v])) = Some TypeError"
  using assms(2)
proof (induction fs)
  case Nil
  with assms(1) show ?case by simp
next
  case (Cons f fs)
  obtain t n val iv pre post where f: "f = Frame t n val iv pre post"
    by (cases f)
  let ?X = "plug fs v"
  let ?P = "Node t n val iv (Some (pre @ ?X # post))"
  have inner: "snd (validateValueAST rm cp decl (Some [?X])) = Some TypeError"
    using Cons by simp
  have "isVarFunction ?P = Inr False \<or>
        (isVarFunction ?P = Inr True \<and>
         (\<exists>p sep fpre. pre = p # sep # fpre \<and> cp (node_value p) = None) \<and>
         isVarFunction ?X = Inr True)"
    using Cons.prems unfolding f
    by (auto split: sum.splits bool.splits list.splits)
  then have "snd (validateValueAST rm cp decl (Some [?P])) = Some TypeError"
  proof
    assume "isVarFunction ?P = Inr False"
    then show ?thesis
      using raise_middle [OF inner, of pre post] by (simp add: validate_single_other)
  next
    assume "isVarFunction ?P = Inr True \<and>
         (\<exists>p sep fpre. pre = p # sep # fpre \<and> cp (node_value p) = None) \<and>
         isVarFunction ?X = Inr True"
    then obtain p sep fpre where var: "isVarFunction ?P = Inr True"
      and pre: "pre = p # sep # fpre" and unknown: "cp (node_value p) = None"
      and X: "isVarFunction ?X = Inr True"
      by blast
    have run: "validateValueAST rm cp decl (Some [?P]) =
        (case filter_isVarFunction (fpre @ ?X # post) of
           Inl e \<Rightarrow> ([], Some e)
         | Inr vars \<Rightarrow> validateValueAST rm cp decl (Some vars))"
      using var pre unknown
      by (simp add: validate_single_var [where p = p and args = "sep # fpre @ ?X # post"])
    show ?thesis
    proof (cases "filter_isVarFunction (fpre @ ?X # post)")
      case (Inl e)
      then show ?thesis
        unfolding run using filter_isVarFunction_error [OF Inl] by simp
    next
      case (Inr vars)
      then obtain a' b' where "vars = a' @ ?X # b'"
        using filter_isVarFunction_middle [OF Inr] X by auto
      then show ?thesis
        unfolding run using Inr raise_middle [OF inner, of a' b'] by simp
    qed
  qed
  then show ?case by (simp add: f)
qed

lemma plug_inert_flags:
  "isVariable (plug fs (inert v)) = isVariable (plug fs v) \<and>
   node_value (plug fs (inert v)) = node_value (plug fs v)"
proof (cases fs)
  case Nil
  then show ?thesis by (simp add: inert_def)
next
  case (Cons f fs')
  then show ?thesis by (cases f) simp
qed

lemma isVarFunction_plug_inert:
  assumes "fs \<noteq> []"
  shows "isVarFunction (plug fs (inert v)) = isVarFunction (plug fs v)"
proof -
  obtain f fs' where "fs = f # fs'"
    using assms by (cases fs) auto
  moreover obtain t n val iv pre post where "f = Frame t n val iv pre post"
    by (cases f)
  ultimately have fs: "fs = Frame t n val iv pre post # fs'"
    by simp
  show ?thesis
    unfolding fs using plug_inert_flags [of fs' v]
    by (cases pre) (simp_all add: isVarFunction_Node_Cons)
qed

lemma filter_isVarFunction_dropped:
  assumes "isVarFunction X = isVarFunction Y" and "isVarFunction X \<noteq> Inr True"
  shows "filter_isVarFunction (a @ X # b) = filter_isVarFunction (a @ Y # b)"
proof -
  have "filter_isVarFunction (X # b) = filter_isVarFunction (Y # b)"
  proof (cases "isVarFunction X")
    case (Inl e)
    with assms(1) have "isVarFunction Y = Inl e" by simp
    with Inl show ?thesis by simp
  next
    case (Inr k)
    with assms(2) have X: "isVarFunction X = Inr False" by simp
    with assms(1) have "isVarFunction Y = Inr False" by simp
    with X show ?thesis by (simp split: sum.splits)
  qed
  then show ?thesis
    by (simp only: filter_isVarFunction_append)
qed

lemma unvisited_same_walk:
  assumes v: "isVarFunction v = Inr True" and "\<not> visited cp fs v"
  shows "same_walk rm cp decl (plug fs v) (plug fs (inert v))"
  using assms(2)
proof (induction fs)
  case Nil
  then show ?case by simp
next
  case (Cons f fs)
  obtain t n val iv pre post where f: "f = Frame t n val iv pre post"
    by (cases f)
  let ?X = "plug fs v"
  let ?Y = "plug fs (inert v)"
  let ?P = "Node t n val iv (Some (pre @ ?X # post))"
  let ?Q = "Node t n val iv (Some (pre @ ?Y # post))"
  have flag: "isVariable ?Y = isVariable ?X" and nm: "node_value ?Y = node_value ?X"
    using plug_inert_flags [of fs v] by simp_all
  have iv: "isVarFunction ?Q = isVarFunction ?P"
    using flag by (cases pre) (simp_all add: isVarFunction_Node_Cons)
  have "same_walk rm cp decl ?P ?Q"
  proof (cases "visited cp fs v")
    case False
    then have "same_walk rm cp decl ?X ?Y" by (rule Cons.IH)
    then show ?thesis by (rule same_walk_frame)
  next
    case True
    obtain b where b: "isVarFunction ?P = Inr b"
      by (cases pre) (simp_all add: isVarFunction_Node_Cons)
    have var: "isVarFunction ?P = Inr True"
      using Cons.prems True b unfolding f by (cases b) simp_all
    have stop: "isVarFunction ?X \<noteq> Inr True"
      if "pre = p # sep # fpre" and "cp (node_value p) = None" for p sep fpre
      using Cons.prems True var that unfolding f by simp
    have Q: "isVarFunction ?Q = Inr True"
      using var iv by simp
    have run: "validateValueAST rm cp decl (Some [?P]) = validateValueAST rm cp decl (Some [?Q])"
    proof (cases pre)
      case Nil
      with var Q nm show ?thesis
        by (simp add: validate_single_var [where p = ?X and args = post]
            validate_single_var [where p = ?Y and args = post])
    next
      case (Cons a pre')
      note outer = Cons
      show ?thesis
      proof (cases pre')
        case Nil
        with outer var Q show ?thesis
          by (simp add: validate_single_var [where p = a and args = "?X # post"]
              validate_single_var [where p = a and args = "?Y # post"])
      next
        case (Cons sep fpre)
        have P_run: "validateValueAST rm cp decl (Some [?P]) =
            (if cp (node_value a) \<noteq> None then ([], None)
             else (case filter_isVarFunction (fpre @ ?X # post) of
                     Inl e \<Rightarrow> ([], Some e)
                   | Inr vars \<Rightarrow> validateValueAST rm cp decl (Some vars)))"
          using var outer Cons
          by (simp add: validate_single_var [where p = a and args = "sep # fpre @ ?X # post"])
        have Q_run: "validateValueAST rm cp decl (Some [?Q]) =
            (if cp (node_value a) \<noteq> None then ([], None)
             else (case filter_isVarFunction (fpre @ ?Y # post) of
                     Inl e \<Rightarrow> ([], Some e)
                   | Inr vars \<Rightarrow> validateValueAST rm cp decl (Some vars)))"
          using Q outer Cons
          by (simp add: validate_single_var [where p = a and args = "sep # fpre @ ?Y # post"])
        show ?thesis
        proof (cases "cp (node_value a) = None")
          case False
          then show ?thesis unfolding P_run Q_run by simp
        next
          case unknown: True
          have notvar: "isVarFunction ?X \<noteq> Inr True"
            using stop [of a sep fpre] outer Cons unknown by simp
          with v have "fs \<noteq> []"
            by auto
          then have "isVarFunction ?X = isVarFunction ?Y"
            by (simp add: isVarFunction_plug_inert)
          then have "filter_isVarFunction (fpre @ ?X # post) = filter_isVarFunction (fpre @ ?Y # post)"
            using notvar by (rule filter_isVarFunction_dropped)
          then show ?thesis unfolding P_run Q_run by simp
        qed
      qed
    qed
    show ?thesis
      unfolding same_walk_def using run iv by simp
  qed
  then show ?case by (simp add: f)
qed

lemma foldl_andThen:
  "foldl (\<lambda>sofar d. andThen sofar (g d)) a xs =
     andThen a (foldl (\<lambda>sofar d. andThen sofar (g d)) ([], None) xs)"
proof (induction xs arbitrary: a)
  case Nil
  show ?case by simp
next
  case (Cons x xs)
  have "foldl (\<lambda>sofar d. andThen sofar (g d)) a (x # xs) =
        andThen (andThen a (g x)) (foldl (\<lambda>sofar d. andThen sofar (g d)) ([], None) xs)"
    using Cons.IH [of "andThen a (g x)"] by simp
  also have "\<dots> = andThen a (andThen (g x) (foldl (\<lambda>sofar d. andThen sofar (g d)) ([], None) xs))"
    by (rule andThen_assoc)
  also have "andThen (g x) (foldl (\<lambda>sofar d. andThen sofar (g d)) ([], None) xs) =
             foldl (\<lambda>sofar d. andThen sofar (g d)) ([], None) (x # xs)"
    using Cons.IH [of "g x"] by simp
  finally show ?case .
qed

lemma validateResult_declaration:
  assumes "validateResult env cp r = (reports, None)"
    and "walkDecls (\<lambda>prop. True) r = before @ d # after"
    and "hasCustomPropertyReference d"
  shows "\<exists>A B ds. validateDecl env cp d = (ds, None) \<and> reports = A @ ds @ B"
proof -
  let ?g = "\<lambda>decl. if hasCustomPropertyReference decl then validateDecl env cp decl else ([], None)"
  let ?F = "\<lambda>sofar decl. andThen sofar (?g decl)"
  have "validateResult env cp r = foldl ?F (foldl ?F ([], None) before) (d # after)"
    by (simp add: validateResult_def assms(2))
  also have "\<dots> = andThen (foldl ?F ([], None) before) (foldl ?F ([], None) (d # after))"
    by (rule foldl_andThen)
  also have "foldl ?F ([], None) (d # after) = foldl ?F (validateDecl env cp d) after"
    using assms(3) by simp
  also have "\<dots> = andThen (validateDecl env cp d) (foldl ?F ([], None) after)"
    by (rule foldl_andThen)
  finally have "andThen (foldl ?F ([], None) before)
                  (andThen (validateDecl env cp d) (foldl ?F ([], None) after)) = (reports, None)"
    using assms(1) by simp
  then show ?thesis
    unfolding andThen_complete by blast
qed


lemmas node_builders = func_def word_node_def punctuation_def Let_def

section \<open>Claims about the validator\<close>

text \<open>
  C1 (as amended). Take a \<^verbatim>\<open>var()\<close> reference \<open>v\<close> with primary name \<open>node_value p\<close>,
  anywhere in a declaration value (\<open>pre @ plug fs v # post\<close> are the top-level nodes).

  \<^item> If the name is a key of the mapping, the reference produces no diagnostic: the whole
    outcome of the validation is the one of the value with the reference taken out
    (replaced by an inert leaf), at every position.
  \<^item> If the name is not a key, the reference has no fallback argument, its position is
    one the walk visits and the validation does not raise, then the reports are those of
    the value without the reference plus exactly one report, inserted at the place of the
    reference: its message is the host's \<open>ruleMessages\<close> rendering of the template
    \<open>unexpected\<close> for the name and the declaration's property, its word is the name.
  \<^item> At a position the walk does not visit (among the arguments of a reference with a
    known name, as the first or second child of a reference, or below a fallback that is
    not itself a \<^verbatim>\<open>var()\<close> reference) the reference produces no diagnostic, whatever its
    name: the outcome is again the one of the value with the reference taken out.
  \<^item> When the validation of a stylesheet completes, the reports of each of its
    declarations with a textual \<^verbatim>\<open>var(\<close> reference are those of the validation of its parsed
    value, and they stand in the reports of the stylesheet.
  \<^item> The template's text is \<^verbatim>\<open>Unexpected custom property "<name>" inside declaration "<prop>".\<close>
\<close>

theorem var_reference_diagnostics:
  assumes "isVarFunction v = Inr True" and "nodes v = Some (p # args)"
  shows "(cp (node_value p) \<noteq> None \<longrightarrow>
            validateValueAST rm cp decl (Some (pre @ plug fs v # post)) =
            validateValueAST rm cp decl (Some (pre @ plug fs (inert v) # post))) \<and>
         (cp (node_value p) = None \<and> length args \<le> 1 \<and> visited cp fs v \<and>
          validateValueAST rm cp decl (Some (pre @ plug fs v # post)) = (ds, None) \<longrightarrow>
            (\<exists>A B. ds = A @ [\<lparr>message = rm ruleName unexpected (node_value p) (decl_prop decl),
                               report_node = decl, report_ruleName = ruleName,
                               word = node_value p\<rparr>] @ B \<and>
                   validateValueAST rm cp decl (Some (pre @ plug fs (inert v) # post)) = (A @ B, None))) \<and>
         (\<not> visited cp fs v \<longrightarrow>
            validateValueAST rm cp decl (Some (pre @ plug fs v # post)) =
            validateValueAST rm cp decl (Some (pre @ plug fs (inert v) # post))) \<and>
         (validateResult env cp stylesheet = (reports, None) \<and>
          walkDecls (\<lambda>prop. True) stylesheet = earlier @ decl # later \<and>
          hasCustomPropertyReference decl \<and> values_parse env (decl_value decl) = Inr ast \<longrightarrow>
            (\<exists>A B found. validateValueAST (ruleMessages env) cp decl ast = (found, None) \<and>
                          reports = A @ found @ B)) \<and>
         unexpected (node_value p) (decl_prop decl) =
           ''Unexpected custom property '' @ [CHR 0x22] @ node_value p @ [CHR 0x22] @
           '' inside declaration '' @ [CHR 0x22] @ decl_prop decl @ [CHR 0x22] @ ''.''"
proof (intro conjI impI)
  assume "cp (node_value p) \<noteq> None"
  then have "same_walk rm cp decl (plug fs v) (plug fs (inert v))"
    using assms by (intro same_walk_plug same_walk_known)
  then have "validateValueAST rm cp decl (Some [plug fs v]) =
             validateValueAST rm cp decl (Some [plug fs (inert v)])"
    by (simp add: same_walk_def)
  then show "validateValueAST rm cp decl (Some (pre @ plug fs v # post)) =
             validateValueAST rm cp decl (Some (pre @ plug fs (inert v) # post))"
    by (simp add: validate_middle)
next
  assume h: "cp (node_value p) = None \<and> length args \<le> 1 \<and> visited cp fs v \<and>
             validateValueAST rm cp decl (Some (pre @ plug fs v # post)) = (ds, None)"
  then have unknown: "cp (node_value p) = None" and bare: "length args \<le> 1"
    and pos: "visited cp fs v"
    by simp_all
  have "splices rm cp decl
               [\<lparr>message = rm ruleName unexpected (node_value p) (decl_prop decl),
                 report_node = decl, report_ruleName = ruleName, word = node_value p\<rparr>]
               (plug fs v) (plug fs (inert v))"
    using splices_unknown [of v p args cp rm decl] assms unknown bare pos
    by (intro splices_plug) simp_all
  from splices_list [OF this] h
  show "\<exists>A B. ds = A @ [\<lparr>message = rm ruleName unexpected (node_value p) (decl_prop decl),
                          report_node = decl, report_ruleName = ruleName,
                          word = node_value p\<rparr>] @ B \<and>
              validateValueAST rm cp decl (Some (pre @ plug fs (inert v) # post)) = (A @ B, None)"
    by blast
next
  assume "\<not> visited cp fs v"
  with assms(1) have "same_walk rm cp decl (plug fs v) (plug fs (inert v))"
    by (rule unvisited_same_walk)
  then have "validateValueAST rm cp decl (Some [plug fs v]) =
             validateValueAST rm cp decl (Some [plug fs (inert v)])"
    by (simp add: same_walk_def)
  then show "validateValueAST rm cp decl (Some (pre @ plug fs v # post)) =
             validateValueAST rm cp decl (Some (pre @ plug fs (inert v) # post))"
    by (simp add: validate_middle)
next
  assume h: "validateResult env cp stylesheet = (reports, None) \<and>
             walkDecls (\<lambda>prop. True) stylesheet = earlier @ decl # later \<and>
             hasCustomPropertyReference decl \<and> values_parse env (decl_value decl) = Inr ast"
  then obtain A B found where "validateDecl env cp decl = (found, None)" and "reports = A @ found @ B"
    using validateResult_declaration [of env cp stylesheet reports earlier decl later] by blast
  moreover have "validateDecl env cp decl = validateValueAST (ruleMessages env) cp decl ast"
    using h by (simp add: validateDecl_def)
  ultimately show "\<exists>A B found. validateValueAST (ruleMessages env) cp decl ast = (found, None) \<and>
                                 reports = A @ found @ B"
    by auto
next
  show "unexpected (node_value p) (decl_prop decl) =
           ''Unexpected custom property '' @ [CHR 0x22] @ node_value p @ [CHR 0x22] @
           '' inside declaration '' @ [CHR 0x22] @ decl_prop decl @ [CHR 0x22] @ ''.''"
    by (simp add: unexpected_def)
qed

text \<open>
  All parts at concrete values, on a stylesheet with the single declaration
  \<^verbatim>\<open>width: calc(var(--u1, var(--u2)) + 1px)\<close>: the reference \<^verbatim>\<open>var(--u2)\<close> stands at a visited
  position and is reported once, in the reports of the stylesheet; without it nothing is
  reported. \<^verbatim>\<open>var(--known)\<close> is silent, and so is \<^verbatim>\<open>var(--u2)\<close> at the position it has in
  \<^verbatim>\<open>var(--u1, calc(var(--u2)))\<close>, which the walk does not visit.
\<close>

theorem var_reference_diagnostics_witness:
  "isVarFunction (func ''var'' [word_node ''--u2'' True]) = Inr True \<and>
   nodes (func ''var'' [word_node ''--u2'' True]) = Some [word_node ''--u2'' True] \<and>
   map_of [(''--known'', ''1'')] ''--u2'' = None \<and>
   visited (map_of [(''--known'', ''1'')])
     [Frame ''func'' ''calc'' [] False [] [punctuation ''+'', word_node ''1px'' False],
      Frame ''func'' ''var'' [] False [word_node ''--u1'' True, punctuation '',''] []]
     (func ''var'' [word_node ''--u2'' True]) \<and>
   validateValueAST stylelint_ruleMessages (map_of [(''--known'', ''1'')])
     \<lparr>decl_prop = ''width'', decl_value = ''calc(var(--u1, var(--u2)) + 1px)''\<rparr>
     (Some [func ''calc'' [func ''var'' [word_node ''--u1'' True, punctuation '','',
                                          func ''var'' [word_node ''--u2'' True]],
                           punctuation ''+'', word_node ''1px'' False]]) =
     ([\<lparr>message = unexpected ''--u2'' ''width'' @ '' (csstools/value-no-unknown-custom-properties)'',
        report_node = \<lparr>decl_prop = ''width'', decl_value = ''calc(var(--u1, var(--u2)) + 1px)''\<rparr>,
        report_ruleName = ruleName, word = ''--u2''\<rparr>], None) \<and>
   validateValueAST stylelint_ruleMessages (map_of [(''--known'', ''1'')])
     \<lparr>decl_prop = ''width'', decl_value = ''calc(var(--u1, var(--u2)) + 1px)''\<rparr>
     (Some [func ''calc'' [func ''var'' [word_node ''--u1'' True, punctuation '','',
                                          inert (func ''var'' [word_node ''--u2'' True])],
                           punctuation ''+'', word_node ''1px'' False]]) = ([], None) \<and>
   validateValueAST stylelint_ruleMessages (map_of [(''--known'', ''1'')])
     \<lparr>decl_prop = ''color'', decl_value = ''var(--known)''\<rparr>
     (Some [func ''var'' [word_node ''--known'' True]]) = ([], None) \<and>
   \<not> visited (map_of [(''--known'', ''1'')])
     [Frame ''func'' ''var'' [] False [word_node ''--u1'' True, punctuation '',''] [],
      Frame ''func'' ''calc'' [] False [] []]
     (func ''var'' [word_node ''--u2'' True]) \<and>
   validateValueAST stylelint_ruleMessages (map_of [(''--known'', ''1'')])
     \<lparr>decl_prop = ''width'', decl_value = ''var(--u1, calc(var(--u2)))''\<rparr>
     (Some [func ''var'' [word_node ''--u1'' True, punctuation '','',
                          func ''calc'' [func ''var'' [word_node ''--u2'' True]]]]) = ([], None) \<and>
   validateResult
     (host [] [] [(''calc(var(--u1, var(--u2)) + 1px)'',
                   [func ''calc'' [func ''var'' [word_node ''--u1'' True, punctuation '','',
                                                  func ''var'' [word_node ''--u2'' True]],
                                   punctuation ''+'', word_node ''1px'' False]])])
     (map_of [(''--known'', ''1'')])
     \<lparr>root_file = None,
      root_nodes = [Rule ''.a'' [Decl \<lparr>decl_prop = ''width'',
                                       decl_value = ''calc(var(--u1, var(--u2)) + 1px)''\<rparr>]]\<rparr> =
     ([\<lparr>message = unexpected ''--u2'' ''width'' @ '' (csstools/value-no-unknown-custom-properties)'',
        report_node = \<lparr>decl_prop = ''width'', decl_value = ''calc(var(--u1, var(--u2)) + 1px)''\<rparr>,
        report_ruleName = ruleName, word = ''--u2''\<rparr>], None)"
proof -
  let ?cp = "map_of [(''--known'', ''1'')]"
  let ?d = "\<lparr>decl_prop = ''width'', decl_value = ''calc(var(--u1, var(--u2)) + 1px)''\<rparr>"
  let ?c = "\<lparr>decl_prop = ''color'', decl_value = ''var(--known)''\<rparr>"
  let ?e = "\<lparr>decl_prop = ''width'', decl_value = ''var(--u1, calc(var(--u2)))''\<rparr>"
  let ?v = "func ''var'' [word_node ''--u2'' True]"
  let ?k = "func ''var'' [word_node ''--known'' True]"
  let ?fs = "[Frame ''func'' ''calc'' [] False [] [punctuation ''+'', word_node ''1px'' False],
      Frame ''func'' ''var'' [] False [word_node ''--u1'' True, punctuation '',''] []]"
  let ?gs = "[Frame ''func'' ''var'' [] False [word_node ''--u1'' True, punctuation '',''] [],
      Frame ''func'' ''calc'' [] False [] []]"
  let ?r = "\<lparr>message = unexpected ''--u2'' ''width'' @ '' (csstools/value-no-unknown-custom-properties)'',
        report_node = ?d, report_ruleName = ruleName, word = ''--u2''\<rparr>"
  let ?ast = "[func ''calc'' [func ''var'' [word_node ''--u1'' True, punctuation '','', ?v],
                              punctuation ''+'', word_node ''1px'' False]]"
  let ?H = "host [] [] [(''calc(var(--u1, var(--u2)) + 1px)'', ?ast)]"
  let ?sheet = "\<lparr>root_file = None, root_nodes = [Rule ''.a'' [Decl ?d]]\<rparr>"
  have v: "isVarFunction ?v = Inr True" "nodes ?v = Some [word_node ''--u2'' True]"
    and k: "isVarFunction ?k = Inr True" "nodes ?k = Some [word_node ''--known'' True]"
    by (simp_all add: isVarFunction_def node_builders)
  have unknown: "?cp ''--u2'' = None" and known: "?cp ''--known'' \<noteq> None"
    by simp_all
  have pos: "visited ?cp ?fs ?v"
    by (simp add: isVarFunction_def node_builders)
  have off: "\<not> visited ?cp ?gs ?v"
    by (simp add: isVarFunction_def node_builders)
  have run: "validateValueAST stylelint_ruleMessages ?cp ?d (Some ([] @ plug ?fs ?v # [])) = ([?r], None)"
    by (simp add: validateValueAST.simps isVarFunction_def node_builders stylelint_ruleMessages_def
        ruleName_def)
  have unknown': "?cp (node_value (word_node ''--u2'' True)) = None \<and> length ([] :: node list) \<le> 1"
    and known': "?cp (node_value (word_node ''--known'' True)) \<noteq> None"
    by (simp_all add: node_builders)
  note T = var_reference_diagnostics [OF v, where cp = ?cp and rm = stylelint_ruleMessages
        and decl = ?d and pre = "[]" and post = "[]" and fs = ?fs and ds = "[?r]"
        and env = ?H and stylesheet = ?sheet and reports = "[?r]" and earlier = "[]" and later = "[]"
        and ast = "Some ?ast"]
  from T unknown' pos run obtain A B where
    split: "[?r] = A @ [\<lparr>message = stylelint_ruleMessages ruleName unexpected
                           (node_value (word_node ''--u2'' True)) (decl_prop ?d),
                         report_node = ?d, report_ruleName = ruleName,
                         word = node_value (word_node ''--u2'' True)\<rparr>] @ B"
    and rest: "validateValueAST stylelint_ruleMessages ?cp ?d (Some ([] @ plug ?fs (inert ?v) # [])) = (A @ B, None)"
    by blast
  from split have "A = [] \<and> B = []"
    by (cases A) simp_all
  with rest have blank: "validateValueAST stylelint_ruleMessages ?cp ?d (Some ([] @ plug ?fs (inert ?v) # [])) = ([], None)"
    by simp
  have sheet: "validateResult ?H ?cp ?sheet = ([?r], None)"
    by (simp add: validateResult_def validateDecl_def hasCustomPropertyReference_def
        customPropertyReferenceRegExp_def is_word_char_def walkDecls_def host_def
        validateValueAST.simps isVarFunction_def node_builders stylelint_ruleMessages_def ruleName_def)
  have decls: "walkDecls (\<lambda>prop. True) ?sheet = [] @ ?d # []"
    by (simp add: walkDecls_def)
  have gate: "hasCustomPropertyReference ?d"
    by (simp add: hasCustomPropertyReference_def customPropertyReferenceRegExp_def is_word_char_def)
  have parsed: "values_parse ?H (decl_value ?d) = Inr (Some ?ast)"
    by (simp add: host_def)
  from T sheet decls gate parsed obtain A' B' found where
    "validateValueAST (ruleMessages ?H) ?cp ?d (Some ?ast) = (found, None)" and "[?r] = A' @ found @ B'"
    by blast
  note K = var_reference_diagnostics [OF k, where cp = ?cp and rm = stylelint_ruleMessages
        and decl = ?c and pre = "[]" and post = "[]" and fs = "[]"]
  from K known' have "validateValueAST stylelint_ruleMessages ?cp ?c (Some ([] @ plug [] ?k # [])) =
      validateValueAST stylelint_ruleMessages ?cp ?c (Some ([] @ plug [] (inert ?k) # []))"
    by blast
  then have silent: "validateValueAST stylelint_ruleMessages ?cp ?c (Some ([] @ plug [] ?k # [])) = ([], None)"
    by (simp add: validate_inert)
  note U = var_reference_diagnostics [OF v, where cp = ?cp and rm = stylelint_ruleMessages
        and decl = ?e and pre = "[]" and post = "[]" and fs = ?gs]
  from U off have "validateValueAST stylelint_ruleMessages ?cp ?e (Some ([] @ plug ?gs ?v # [])) =
      validateValueAST stylelint_ruleMessages ?cp ?e (Some ([] @ plug ?gs (inert ?v) # []))"
    by blast
  also have "\<dots> = ([], None)"
    by (simp add: validateValueAST.simps isVarFunction_def node_builders inert_def)
  finally have skipped: "validateValueAST stylelint_ruleMessages ?cp ?e (Some ([] @ plug ?gs ?v # [])) = ([], None)" .
  from v unknown pos run blank silent off skipped sheet show ?thesis
    by (simp add: node_builders)
qed

text \<open>
  The claim as stated, for every reference of a value, fails: in
  \<^verbatim>\<open>var(--unknown, calc(var(--missing)))\<close> neither name is known, the reference
  \<^verbatim>\<open>var(--missing)\<close> has no fallback, and no diagnostic is produced: the fallback
  \<^verbatim>\<open>calc(...)\<close> is not itself a \<^verbatim>\<open>var()\<close> reference, so nothing below it is walked.
\<close>

theorem unvisited_reference_counterexample:
  "isVarFunction (func ''var'' [word_node ''--missing'' True]) = Inr True \<and>
   nodes (func ''var'' [word_node ''--missing'' True]) = Some [word_node ''--missing'' True] \<and>
   map_of [(''--known'', ''1'')] ''--missing'' = None \<and>
   map_of [(''--known'', ''1'')] ''--unknown'' = None \<and>
   validateValueAST stylelint_ruleMessages (map_of [(''--known'', ''1'')])
     \<lparr>decl_prop = ''color'', decl_value = ''var(--unknown, calc(var(--missing)))''\<rparr>
     (Some [func ''var'' [word_node ''--unknown'' True, punctuation '','',
                          func ''calc'' [func ''var'' [word_node ''--missing'' True]]]]) = ([], None)"
  by (simp add: validateValueAST.simps isVarFunction_def node_builders)

text \<open>
  C2. A \<^verbatim>\<open>var()\<close> reference whose primary name is known yields no report and no error
  whatever its remaining arguments are, so the fallbacks are not walked. A reference with
  an unknown name whose only fallback is a \<^verbatim>\<open>var()\<close> reference with an unknown name and no
  further fallback yields exactly one report, for the inner name.
\<close>

theorem fallback_short_circuit:
  "(isVarFunction v = Inr True \<and> nodes v = Some (p # args) \<and> cp (node_value p) \<noteq> None \<longrightarrow>
      validateValueAST rm cp decl (Some [v]) = ([], None)) \<and>
   (isVarFunction v = Inr True \<and> nodes v = Some [p, sep, w] \<and> cp (node_value p) = None \<and>
    isVarFunction w = Inr True \<and> nodes w = Some (q # args') \<and> cp (node_value q) = None \<and>
    length args' \<le> 1 \<longrightarrow>
      validateValueAST rm cp decl (Some [v]) =
        ([\<lparr>message = rm ruleName unexpected (node_value q) (decl_prop decl),
           report_node = decl, report_ruleName = ruleName, word = node_value q\<rparr>], None))"
proof (intro conjI impI)
  assume "isVarFunction v = Inr True \<and> nodes v = Some (p # args) \<and> cp (node_value p) \<noteq> None"
  then show "validateValueAST rm cp decl (Some [v]) = ([], None)"
    using validate_single_var [of v p args rm cp decl] by simp
next
  assume h: "isVarFunction v = Inr True \<and> nodes v = Some [p, sep, w] \<and> cp (node_value p) = None \<and>
    isVarFunction w = Inr True \<and> nodes w = Some (q # args') \<and> cp (node_value q) = None \<and>
    length args' \<le> 1"
  then have inner: "validateValueAST rm cp decl (Some [w]) =
        ([\<lparr>message = rm ruleName unexpected (node_value q) (decl_prop decl),
           report_node = decl, report_ruleName = ruleName, word = node_value q\<rparr>], None)"
    using validate_single_var [of w q args' rm cp decl] by simp
  have "validateValueAST rm cp decl (Some [v]) = validateValueAST rm cp decl (Some [w])"
    using h validate_single_var [of v p "[sep, w]" rm cp decl] by simp
  with inner show "validateValueAST rm cp decl (Some [v]) =
        ([\<lparr>message = rm ruleName unexpected (node_value q) (decl_prop decl),
           report_node = decl, report_ruleName = ruleName, word = node_value q\<rparr>], None)"
    by simp
qed

theorem fallback_short_circuit_witness:
  "validateValueAST stylelint_ruleMessages (map_of [(''--known'', ''1'')])
     \<lparr>decl_prop = ''color'', decl_value = ''var(--known, var(--unknown))''\<rparr>
     (Some [func ''var'' [word_node ''--known'' True, punctuation '','',
                          func ''var'' [word_node ''--unknown'' True]]]) = ([], None) \<and>
   validateValueAST stylelint_ruleMessages (map_of [(''--known'', ''1'')])
     \<lparr>decl_prop = ''color'', decl_value = ''var(--unknown1, var(--unknown2))''\<rparr>
     (Some [func ''var'' [word_node ''--unknown1'' True, punctuation '','',
                          func ''var'' [word_node ''--unknown2'' True]]]) =
     ([\<lparr>message = stylelint_ruleMessages ruleName unexpected ''--unknown2'' ''color'',
        report_node = \<lparr>decl_prop = ''color'', decl_value = ''var(--unknown1, var(--unknown2))''\<rparr>,
        report_ruleName = ruleName, word = ''--unknown2''\<rparr>], None)"
proof -
  let ?cp = "map_of [(''--known'', ''1'')]"
  let ?inner = "func ''var'' [word_node ''--unknown'' True]"
  let ?inner2 = "func ''var'' [word_node ''--unknown2'' True]"
  let ?a = "func ''var'' [word_node ''--known'' True, punctuation '','', ?inner]"
  let ?b = "func ''var'' [word_node ''--unknown1'' True, punctuation '','', ?inner2]"
  have a: "isVarFunction ?a = Inr True \<and>
           nodes ?a = Some (word_node ''--known'' True # [punctuation '','', ?inner]) \<and>
           ?cp (node_value (word_node ''--known'' True)) \<noteq> None"
    by (simp add: isVarFunction_def node_builders)
  have b: "isVarFunction ?b = Inr True \<and>
           nodes ?b = Some [word_node ''--unknown1'' True, punctuation '','', ?inner2] \<and>
           ?cp (node_value (word_node ''--unknown1'' True)) = None \<and>
           isVarFunction ?inner2 = Inr True \<and>
           nodes ?inner2 = Some (word_node ''--unknown2'' True # []) \<and>
           ?cp (node_value (word_node ''--unknown2'' True)) = None \<and>
           length ([] :: node list) \<le> 1"
    by (simp add: isVarFunction_def node_builders)
  from a fallback_short_circuit [where v = ?a and cp = ?cp]
  have "validateValueAST stylelint_ruleMessages ?cp
          \<lparr>decl_prop = ''color'', decl_value = ''var(--known, var(--unknown))''\<rparr>
          (Some [?a]) = ([], None)"
    by blast
  moreover from b fallback_short_circuit [where v = ?b and cp = ?cp and w = ?inner2]
  have "validateValueAST stylelint_ruleMessages ?cp
          \<lparr>decl_prop = ''color'', decl_value = ''var(--unknown1, var(--unknown2))''\<rparr>
          (Some [?b]) =
        ([\<lparr>message = stylelint_ruleMessages ruleName unexpected
                      (node_value (word_node ''--unknown2'' True))
                      (decl_prop \<lparr>decl_prop = ''color'', decl_value = ''var(--unknown1, var(--unknown2))''\<rparr>),
           report_node = \<lparr>decl_prop = ''color'', decl_value = ''var(--unknown1, var(--unknown2))''\<rparr>,
           report_ruleName = ruleName,
           word = node_value (word_node ''--unknown2'' True)\<rparr>], None)"
    by blast
  ultimately show ?thesis
    by (simp add: word_node_def)
qed

text \<open>
  C9. A \<^verbatim>\<open>var()\<close> reference with an unknown primary name and at least one fallback
  argument, none of which is a \<^verbatim>\<open>var()\<close> reference: the filter keeps no fallback and the
  reference is not reported.
\<close>

theorem non_var_fallback_suppresses_report:
  assumes "isVarFunction v = Inr True" and "nodes v = Some (p # sep # fallbacks)"
    and "cp (node_value p) = None" and "fallbacks \<noteq> []"
    and "\<forall>f \<in> set fallbacks. isVarFunction f = Inr False"
  shows "filter_isVarFunction fallbacks = Inr [] \<and>
         validateValueAST rm cp decl (Some [v]) = ([], None)"
  using assms validate_single_var [of v p "sep # fallbacks" rm cp decl]
    filter_isVarFunction_none [of fallbacks]
  by simp

theorem non_var_fallback_suppresses_report_witness:
  "filter_isVarFunction [word_node ''red'' False] = Inr [] \<and>
   validateValueAST stylelint_ruleMessages (map_of [(''--known'', ''1'')])
     \<lparr>decl_prop = ''color'', decl_value = ''var(--unknown, red)''\<rparr>
     (Some [func ''var'' [word_node ''--unknown'' True, punctuation '','', word_node ''red'' False]]) =
     ([], None)"
proof -
  let ?cp = "map_of [(''--known'', ''1'')]"
  let ?v = "func ''var'' [word_node ''--unknown'' True, punctuation '','', word_node ''red'' False]"
  have "isVarFunction ?v = Inr True"
    and "nodes ?v = Some (word_node ''--unknown'' True # punctuation '','' # [word_node ''red'' False])"
    and "?cp (node_value (word_node ''--unknown'' True)) = None"
    and "[word_node ''red'' False] \<noteq> []"
    and "\<forall>f \<in> set [word_node ''red'' False]. isVarFunction f = Inr False"
    by (simp_all add: isVarFunction_def node_builders)
  then show ?thesis
    by (rule non_var_fallback_suppresses_report)
qed

text \<open>
  C10 (as amended). The validation of a value raises nothing when every function node
  named \<^verbatim>\<open>var\<close> in it has an argument node. A function node named \<^verbatim>\<open>var\<close> without argument
  nodes makes the test \<^verbatim>\<open>isVarFunction\<close> raise a TypeError: walked alone it ends in that
  error with no report, and the validation of the value ends in it wherever the test is
  applied to the node, that is at every position the walk visits and among the fallbacks
  of a visited reference with an unknown name.
\<close>

theorem unguarded_var_function_raises:
  "((\<forall>n \<in> set ns. guarded n) \<longrightarrow> snd (validateValueAST rm cp decl (Some ns)) = None) \<and>
   (node_type v = ''func'' \<and> node_name v = ''var'' \<and> (nodes v = None \<or> nodes v = Some []) \<longrightarrow>
      isVarFunction v = Inl TypeError \<and>
      validateValueAST rm cp decl (Some [v]) = ([], Some TypeError) \<and>
      (visited cp fs v \<longrightarrow>
         snd (validateValueAST rm cp decl (Some (pre @ plug fs v # post))) = Some TypeError) \<and>
      (visited cp fs w \<and> isVarFunction w = Inr True \<and>
       nodes w = Some (p # sep # before @ v # after) \<and> cp (node_value p) = None \<longrightarrow>
         snd (validateValueAST rm cp decl (Some (pre @ plug fs w # post))) = Some TypeError))"
proof (intro conjI impI)
  assume "\<forall>n \<in> set ns. guarded n"
  then show "snd (validateValueAST rm cp decl (Some ns)) = None"
    using guarded_total [of "Some ns" rm cp decl] by simp
next
  assume h: "node_type v = ''func'' \<and> node_name v = ''var'' \<and> (nodes v = None \<or> nodes v = Some [])"
  then show err: "isVarFunction v = Inl TypeError"
    by (auto simp: isVarFunction_def)
  then show single: "validateValueAST rm cp decl (Some [v]) = ([], Some TypeError)"
    by (simp add: validate_single_error)
  show "snd (validateValueAST rm cp decl (Some (pre @ plug fs v # post))) = Some TypeError"
    if "visited cp fs v"
  proof -
    have "snd (validateValueAST rm cp decl (Some [plug fs v])) = Some TypeError"
      using raise_plug [of rm cp decl v fs] single that by simp
    then show ?thesis by (rule raise_middle)
  qed
  show "snd (validateValueAST rm cp decl (Some (pre @ plug fs w # post))) = Some TypeError"
    if w: "visited cp fs w \<and> isVarFunction w = Inr True \<and>
           nodes w = Some (p # sep # before @ v # after) \<and> cp (node_value p) = None"
  proof -
    obtain e where filtered: "filter_isVarFunction (before @ v # after) = Inl e"
      using err by (cases "filter_isVarFunction before") (auto simp: filter_isVarFunction_append)
    then have "e = TypeError"
      by (rule filter_isVarFunction_error)
    with filtered w have "validateValueAST rm cp decl (Some [w]) = ([], Some TypeError)"
      using validate_single_var [of w p "sep # before @ v # after" rm cp decl] by simp
    then have "snd (validateValueAST rm cp decl (Some [plug fs w])) = Some TypeError"
      using raise_plug [of rm cp decl w fs] w by simp
    then show ?thesis by (rule raise_middle)
  qed
qed

theorem unguarded_var_function_raises_witness:
  "guarded (func ''calc'' [func ''var'' [word_node ''--x'' True]]) \<and>
   snd (validateValueAST stylelint_ruleMessages (map_of [(''--known'', ''1'')])
          \<lparr>decl_prop = ''width'', decl_value = ''calc(var(--x))''\<rparr>
          (Some [func ''calc'' [func ''var'' [word_node ''--x'' True]]])) = None \<and>
   isVarFunction (func ''var'' []) = Inl TypeError \<and>
   validateValueAST stylelint_ruleMessages (map_of [(''--known'', ''1'')])
     \<lparr>decl_prop = ''width'', decl_value = ''calc(var())''\<rparr>
     (Some [func ''var'' []]) = ([], Some TypeError) \<and>
   visited (map_of [(''--known'', ''1'')]) [Frame ''func'' ''calc'' [] False [] []] (func ''var'' []) \<and>
   snd (validateValueAST stylelint_ruleMessages (map_of [(''--known'', ''1'')])
          \<lparr>decl_prop = ''width'', decl_value = ''calc(var())''\<rparr>
          (Some [func ''calc'' [func ''var'' []]])) = Some TypeError \<and>
   snd (validateValueAST stylelint_ruleMessages (map_of [(''--known'', ''1'')])
          \<lparr>decl_prop = ''width'', decl_value = ''calc(var())''\<rparr>
          (Some [func ''var'' [word_node ''--unknown'' True, punctuation '','', func ''var'' []]])) =
     Some TypeError"
proof -
  let ?cp = "map_of [(''--known'', ''1'')]"
  let ?d = "\<lparr>decl_prop = ''width'', decl_value = ''calc(var())''\<rparr>"
  let ?ns = "[func ''calc'' [func ''var'' [word_node ''--x'' True]]]"
  let ?v = "func ''var'' []"
  let ?w = "func ''var'' [word_node ''--unknown'' True, punctuation '','', ?v]"
  let ?fs = "[Frame ''func'' ''calc'' [] False [] []]"
  have g: "\<forall>n \<in> set ?ns. guarded n"
    by (simp add: node_builders)
  have v: "node_type ?v = ''func'' \<and> node_name ?v = ''var'' \<and> (nodes ?v = None \<or> nodes ?v = Some [])"
    by (simp add: node_builders)
  have pos: "visited ?cp ?fs ?v"
    by (simp add: isVarFunction_def node_builders)
  have w: "visited ?cp [] ?w \<and> isVarFunction ?w = Inr True \<and>
           nodes ?w = Some (word_node ''--unknown'' True # punctuation '','' # [] @ ?v # []) \<and>
           ?cp (node_value (word_node ''--unknown'' True)) = None"
    by (simp add: isVarFunction_def node_builders)
  note T = unguarded_var_function_raises [where ns = ?ns and v = ?v and cp = ?cp
      and pre = "[]" and post = "[]" and rm = stylelint_ruleMessages]
  from T [where decl = "\<lparr>decl_prop = ''width'', decl_value = ''calc(var(--x))''\<rparr>"] g
  have total: "snd (validateValueAST stylelint_ruleMessages ?cp
          \<lparr>decl_prop = ''width'', decl_value = ''calc(var(--x))''\<rparr> (Some ?ns)) = None"
    by blast
  from T [where decl = ?d and fs = ?fs] v pos
  have "isVarFunction ?v = Inl TypeError"
    and "validateValueAST stylelint_ruleMessages ?cp ?d (Some [?v]) = ([], Some TypeError)"
    and "snd (validateValueAST stylelint_ruleMessages ?cp ?d (Some ([] @ plug ?fs ?v # []))) =
         Some TypeError"
    by blast+
  moreover from T [where decl = ?d and fs = "[]" and w = ?w] v w
  have "snd (validateValueAST stylelint_ruleMessages ?cp ?d (Some ([] @ plug [] ?w # []))) =
        Some TypeError"
    by blast
  moreover have "guarded (func ''calc'' [func ''var'' [word_node ''--x'' True]])"
    using g by simp
  ultimately show ?thesis
    using total pos by (simp add: func_def)
qed

text \<open>
  The claim as stated, for every function node named \<^verbatim>\<open>var\<close> of a value, fails: in
  \<^verbatim>\<open>var(--known, var())\<close> the inner call has no argument node, the test is never applied
  to it, and the validation completes without error and without report.
\<close>

theorem skipped_var_function_counterexample:
  "node_type (func ''var'' []) = ''func'' \<and> node_name (func ''var'' []) = ''var'' \<and>
   nodes (func ''var'' []) = Some [] \<and>
   validateValueAST stylelint_ruleMessages (map_of [(''--known'', ''1'')])
     \<lparr>decl_prop = ''color'', decl_value = ''var(--known, var())''\<rparr>
     (Some [func ''var'' [word_node ''--known'' True, punctuation '','', func ''var'' []]]) =
     ([], None)"
  by (simp add: validateValueAST.simps isVarFunction_def node_builders)

section \<open>Properties of the resolver and the aggregator\<close>

lemma Object_assign_simps [simp]:
  "Object_assign target [] = target"
  "Object_assign target (None # sources) = Object_assign target sources"
  "Object_assign target (Some m # sources) = Object_assign (target ++ m) sources"
  by (simp_all add: Object_assign_def)

lemma foldl_write_declaration:
  "foldl write_declaration base ds = base ++ map_of (rev (map (\<lambda>d. (decl_prop d, decl_value d)) ds))"
proof (induction ds arbitrary: base)
  case Nil
  show ?case by simp
next
  case (Cons d ds)
  let ?later = "map_of (rev (map (\<lambda>d. (decl_prop d, decl_value d)) ds))"
  have "foldl write_declaration base (d # ds) = write_declaration base d ++ ?later"
    by (simp add: Cons.IH)
  also have "write_declaration base d = base ++ [decl_prop d \<mapsto> decl_value d]"
    by (simp add: write_declaration_def)
  also have "(base ++ [decl_prop d \<mapsto> decl_value d]) ++ ?later =
             base ++ ([decl_prop d \<mapsto> decl_value d] ++ ?later)"
    by (simp only: map_add_assoc)
  also have "[decl_prop d \<mapsto> decl_value d] ++ ?later =
             map_of (rev (map (\<lambda>d. (decl_prop d, decl_value d)) (d # ds)))"
    by simp
  finally show ?case .
qed

lemma getCustomPropertiesFromRoot_Suc:
  "getCustomPropertiesFromRoot (Suc fuel) env r root =
     (case those (importPromises fuel env r root) of
        None \<Rightarrow> None
      | Some results \<Rightarrow>
          Some (foldl assign_import Map.empty results ++ map_of (rev (own_declarations root))))"
  by (simp only: getCustomPropertiesFromRoot.simps importPromises_def own_declarations_def
      foldl_write_declaration)

lemma foldl_assign_import:
  "foldl assign_import base results =
     foldl (++) base (map (\<lambda>i. case i of None \<Rightarrow> Map.empty | Some mi \<Rightarrow> mi) results)"
proof (induction results arbitrary: base)
  case Nil
  show ?case by simp
next
  case (Cons i results)
  let ?each = "\<lambda>i. case i of None \<Rightarrow> Map.empty | Some mi \<Rightarrow> (mi :: customProperties)"
  have step: "assign_import base i = base ++ ?each i"
    by (cases i) (simp_all add: assign_import_def)
  have "foldl assign_import base (i # results) = foldl assign_import (assign_import base i) results"
    by simp
  also have "\<dots> = foldl (++) (assign_import base i) (map ?each results)"
    by (rule Cons.IH)
  also have "\<dots> = foldl (++) base (map ?each (i # results))"
    by (simp add: step)
  finally show ?case .
qed

lemma those_eq_Some: "those xs = Some ys \<longleftrightarrow> xs = map Some ys"
proof (induction xs arbitrary: ys)
  case Nil
  show ?case by auto
next
  case (Cons x xs)
  show ?case
    by (cases x; cases ys) (auto simp: Cons.IH split: option.splits)
qed

lemma getCustomPropertiesFromRoot_settled:
  "importPromises fuel env r root = map Some imported \<Longrightarrow>
   getCustomPropertiesFromRoot (Suc fuel) env r root =
     Some (foldl (++) Map.empty (map (\<lambda>i. case i of None \<Rightarrow> Map.empty | Some mi \<Rightarrow> mi) imported) ++
           map_of (rev (own_declarations root)))"
proof -
  assume "importPromises fuel env r root = map Some imported"
  then have "those (importPromises fuel env r root) = Some imported"
    by (simp only: those_eq_Some)
  then show ?thesis
    unfolding getCustomPropertiesFromRoot_Suc by (simp add: foldl_assign_import)
qed

lemma getCustomPropertiesFromRoot_returned:
  assumes "getCustomPropertiesFromRoot (Suc fuel) env r root = Some m"
  shows "\<exists>imported. importPromises fuel env r root = map Some imported \<and>
           m = foldl (++) Map.empty (map (\<lambda>i. case i of None \<Rightarrow> Map.empty | Some mi \<Rightarrow> mi) imported) ++
               map_of (rev (own_declarations root))"
proof -
  obtain imported where imported: "those (importPromises fuel env r root) = Some imported"
    and m: "m = foldl assign_import Map.empty imported ++ map_of (rev (own_declarations root))"
    using assms unfolding getCustomPropertiesFromRoot_Suc
    by (cases "those (importPromises fuel env r root)") auto
  from imported have "importPromises fuel env r root = map Some imported"
    by (simp only: those_eq_Some)
  with m show ?thesis
    by (auto simp: foldl_assign_import)
qed

lemma foldl_map_add_none:
  "\<forall>m \<in> set ms. name \<notin> dom m \<Longrightarrow> foldl (++) base ms name = base name"
  by (induction ms arbitrary: base) (simp_all add: map_add_dom_app_simps)

lemma map_of_rev_last:
  assumes "ps = xs @ (k, v) # ys" and "k \<notin> fst ` set ys"
  shows "map_of (rev ps) k = Some v"
proof -
  have "map_of (rev ys) k = None"
    using assms(2) by (simp add: map_of_eq_None_iff)
  then show ?thesis
    unfolding assms(1) by (simp add: map_add_def)
qed

lemma those_map_mono:
  assumes "those (map f xs) = Some ys" and "\<And>x v. x \<in> set xs \<Longrightarrow> f x = Some v \<Longrightarrow> g x = Some v"
  shows "those (map g xs) = Some ys"
  using assms
proof (induction xs arbitrary: ys)
  case Nil
  then show ?case by simp
next
  case (Cons x xs)
  from Cons.prems(1) obtain v vs where v: "f x = Some v" and vs: "those (map f xs) = Some vs"
    and ys: "ys = v # vs"
    by (auto split: option.splits)
  have "g x = Some v"
    using Cons.prems(2) v by simp
  moreover have "those (map g xs) = Some vs"
    using Cons.IH [OF vs] Cons.prems(2) by simp
  ultimately show ?case
    using ys by simp
qed

lemma CSSFile1_step:
  assumes "\<And>root m. getCustomPropertiesFromRoot fuel env r root = Some m \<Longrightarrow>
                      getCustomPropertiesFromRoot (Suc fuel) env r root = Some m"
    and "getCustomPropertiesFromCSSFile1 fuel env r location = Some m"
  shows "getCustomPropertiesFromCSSFile1 (Suc fuel) env r location = Some m"
proof (cases "readFile env location")
  case None
  with assms(2) show ?thesis by simp
next
  case css: (Some css)
  show ?thesis
  proof (cases "postcss_parse env css location")
    case None
    with css assms(2) show ?thesis by simp
  next
    case (Some root)
    with css assms(2) have "getCustomPropertiesFromRoot fuel env r root = Some m"
      by simp
    then have "getCustomPropertiesFromRoot (Suc fuel) env r root = Some m"
      by (rule assms(1))
    with css Some show ?thesis
      by (simp del: getCustomPropertiesFromRoot.simps)
  qed
qed

lemma more_fuel_step:
  "getCustomPropertiesFromRoot fuel env r root = Some m \<Longrightarrow>
   getCustomPropertiesFromRoot (Suc fuel) env r root = Some m"
proof (induction fuel arbitrary: root m)
  case 0
  then show ?case by simp
next
  case (Suc fuel)
  have loaded: "getCustomPropertiesFromCSSFile1 (Suc fuel) env r location = Some v"
    if "getCustomPropertiesFromCSSFile1 fuel env r location = Some v" for location v
    using Suc.IH that by (rule CSSFile1_step)
  from Suc.prems obtain results where
    results: "those (importPromises fuel env r root) = Some results"
    and m: "m = foldl assign_import Map.empty results ++ map_of (rev (own_declarations root))"
    unfolding getCustomPropertiesFromRoot_Suc
    by (cases "those (importPromises fuel env r root)") auto
  have "those (importPromises (Suc fuel) env r root) = Some results"
    using results unfolding importPromises_def
  proof (rule those_map_mono)
    fix atRule v
    assume "(if path_isAbsolute env (import_fileName atRule)
             then map_option Some (getCustomPropertiesFromCSSFile1 fuel env r (import_fileName atRule))
             else case resolveId env (import_fileName atRule) (sourceDir_of env root) r of
                    None \<Rightarrow> Some None
                  | Some filePath \<Rightarrow> map_option Some (getCustomPropertiesFromCSSFile1 fuel env r filePath)) =
            Some v"
    then show "(if path_isAbsolute env (import_fileName atRule)
             then map_option Some (getCustomPropertiesFromCSSFile1 (Suc fuel) env r (import_fileName atRule))
             else case resolveId env (import_fileName atRule) (sourceDir_of env root) r of
                    None \<Rightarrow> Some None
                  | Some filePath \<Rightarrow> map_option Some (getCustomPropertiesFromCSSFile1 (Suc fuel) env r filePath)) =
            Some v"
      using loaded
      by (auto simp del: getCustomPropertiesFromCSSFile1.simps split: if_splits option.splits)
  qed
  with m show ?case
    unfolding getCustomPropertiesFromRoot_Suc [of "Suc fuel"] by simp
qed

lemma more_fuel:
  "getCustomPropertiesFromRoot fuel env r root = Some m \<Longrightarrow>
   getCustomPropertiesFromRoot (fuel + k) env r root = Some m"
  by (induction k) (simp_all add: more_fuel_step del: getCustomPropertiesFromRoot.simps)

lemma without_imports_returns:
  "walkAtRules ''import'' root = [] \<Longrightarrow>
   getCustomPropertiesFromRoot (Suc fuel) env r root = Some (map_of (rev (own_declarations root)))"
  unfolding getCustomPropertiesFromRoot_Suc importPromises_def by simp

lemma assign_awaited_simps [simp]:
  "assign_awaited None loaded = None"
  "assign_awaited (Some (Inl e)) loaded = Some (Inl e)"
  "assign_awaited (Some (Inr target)) None = None"
  "assign_awaited (Some (Inr target)) (Some (Inl e)) = Some (Inl e)"
  "assign_awaited (Some (Inr target)) (Some (Inr properties)) = Some (Inr (target ++ properties))"
  by (simp_all add: assign_awaited_def Object_assign_def)

lemma reduce_rejected:
  "\<exists>e. foldl (sources_reduce_callback fuel env r) (Some (Inl e0)) ds = Some (Inl e)"
proof (induction ds arbitrary: e0)
  case Nil
  show ?case by simp
next
  case (Cons d ds)
  have "\<exists>e1. sources_reduce_callback fuel env r (Some (Inl e0)) d = Some (Inl e1)"
    by (cases d) (simp_all add: sources_reduce_callback_def)
  then show ?case
    using Cons.IH by auto
qed

lemma assign_awaited_fulfilled:
  "assign_awaited acc loaded = Some (Inr M) \<longleftrightarrow>
     (\<exists>target properties. acc = Some (Inr target) \<and> loaded = Some (Inr properties) \<and>
        M = target ++ properties)"
  by (cases acc; cases loaded) (auto simp: assign_awaited_def Object_assign_def split: sum.splits)

lemma reduce_callback_fulfilled:
  "sources_reduce_callback fuel env r acc source = Some (Inr M) \<longleftrightarrow>
     (\<exists>target properties. acc = Some (Inr target) \<and>
        source_mapping fuel env r source = Some (Inr properties) \<and> M = target ++ properties)"
  by (cases source)
    (simp_all add: sources_reduce_callback_def source_mapping_def assign_awaited_fulfilled)

lemma reduce_fulfilled:
  "foldl (sources_reduce_callback fuel env r) (Some (Inr base)) ds = Some (Inr M) \<longleftrightarrow>
     (\<exists>ms. map (source_mapping fuel env r) ds = map (\<lambda>m. Some (Inr m)) ms \<and>
        M = foldl (++) base ms)"
proof (induction ds arbitrary: M rule: rev_induct)
  case Nil
  show ?case by auto
next
  case (snoc d ds)
  show ?case
  proof
    assume "foldl (sources_reduce_callback fuel env r) (Some (Inr base)) (ds @ [d]) = Some (Inr M)"
    then obtain target properties where
      acc: "foldl (sources_reduce_callback fuel env r) (Some (Inr base)) ds = Some (Inr target)"
      and d: "source_mapping fuel env r d = Some (Inr properties)" and M: "M = target ++ properties"
      by (auto simp: reduce_callback_fulfilled)
    from acc obtain ms where ms: "map (source_mapping fuel env r) ds = map (\<lambda>m. Some (Inr m)) ms"
      and target: "target = foldl (++) base ms"
      using snoc.IH by blast
    have "map (source_mapping fuel env r) (ds @ [d]) = map (\<lambda>m. Some (Inr m)) (ms @ [properties])"
      using ms d by simp
    moreover have "M = foldl (++) base (ms @ [properties])"
      using M target by simp
    ultimately show "\<exists>ms. map (source_mapping fuel env r) (ds @ [d]) = map (\<lambda>m. Some (Inr m)) ms \<and>
        M = foldl (++) base ms"
      by blast
  next
    assume "\<exists>ms. map (source_mapping fuel env r) (ds @ [d]) = map (\<lambda>m. Some (Inr m)) ms \<and>
        M = foldl (++) base ms"
    then obtain ms where ms: "map (source_mapping fuel env r) (ds @ [d]) = map (\<lambda>m. Some (Inr m)) ms"
      and M: "M = foldl (++) base ms"
      by blast
    from ms have "length ms = Suc (length ds)"
      by (metis length_append_singleton length_map)
    then obtain ms' properties where split: "ms = ms' @ [properties]"
      by (metis length_Suc_conv_rev)
    with ms have ms': "map (source_mapping fuel env r) ds = map (\<lambda>m. Some (Inr m)) ms'"
      and d: "source_mapping fuel env r d = Some (Inr properties)"
      by simp_all
    from ms' have "foldl (sources_reduce_callback fuel env r) (Some (Inr base)) ds =
                   Some (Inr (foldl (++) base ms'))"
      using snoc.IH by blast
    with d M split
    show "foldl (sources_reduce_callback fuel env r) (Some (Inr base)) (ds @ [d]) = Some (Inr M)"
      by (simp add: reduce_callback_fulfilled)
  qed
qed

lemma foldl_map_add_last:
  assumes "name \<in> dom m" and "\<forall>later \<in> set ys. name \<notin> dom later"
  shows "foldl (++) base (xs @ m # ys) name = m name"
proof -
  have keep: "foldl (++) b ys name = b name" if "\<forall>later \<in> set ys. name \<notin> dom later" for b
    using that by (induction ys arbitrary: b) (simp_all add: map_add_dom_app_simps)
  have "foldl (++) base (xs @ m # ys) name = (foldl (++) base xs ++ m) name"
    using keep [OF assms(2)] by simp
  also have "\<dots> = m name"
    using assms(1) by (simp add: map_add_dom_app_simps)
  finally show ?thesis .
qed

lemmas walk_eval = walkAtRules_def walkDecls_def customPropertyRegExp_def in_range_A_z_def
  is_word_char_def write_declaration_def assign_import_def import_fileName_def sourceDir_of_def Let_def

lemmas host_eval = host_def host_resolve_def posix_resolve_def posix_normalize_def posix_join_def
  posix_dirname_def posix_extname_def is_path_def ancestors_def

lemmas import_eval = import_host_def importing_stylesheet_def stylesheet_a_def stylesheet_b_def
  stylesheet_c_def host_eval resolveId_def no_resolver_def importPromises_def

lemmas lint_eval = rule_callback_def mergedCustomProperties_def Object_assign_at_def Object_assign_def
  validateResult_def validateDecl_def hasCustomPropertyReference_def customPropertyReferenceRegExp_def
  createRule_def new_object_def getCustomPropertiesFromSources_def isMethodEnabled_def
  isMethodDisabled_def host_eval empty_store_def no_resolver_def

section \<open>Claims about the resolver, the aggregator and the rule\<close>

text \<open>
  C3. \<^verbatim>\<open>getCustomPropertiesFromSources\<close> is fulfilled with a mapping exactly when every
  configured source yields one, and the mapping is then the left-to-right fold of these
  with key-wise overwrite; so a name has the value of the last source that defines it.
  The rule function stores that mapping in a fresh object. For each stylesheet the mapping
  of \<^verbatim>\<open>getCustomPropertiesFromRoot\<close> is merged last, over the object the promise holds: a
  name the stylesheet's resolution defines has that value, every other name keeps the
  value it had.
\<close>

theorem sources_fold_in_order:
  "(getCustomPropertiesFromSources fuel env r sources = Some (Inr M) \<longleftrightarrow>
      (\<exists>ms. map (source_mapping fuel env r) (map (sources_map_callback env) sources) =
               map (\<lambda>m. Some (Inr m)) ms \<and>
             M = foldl (++) Map.empty ms)) \<and>
   (map (source_mapping fuel env r) (map (sources_map_callback env) sources) =
      map (\<lambda>m. Some (Inr m)) (xs @ m # ys) \<and>
    name \<in> dom m \<and> (\<forall>later \<in> set ys. name \<notin> dom later) \<longrightarrow>
      (\<exists>M'. getCustomPropertiesFromSources fuel env r sources = Some (Inr M') \<and> M' name = m name)) \<and>
   (isMethodEnabled method \<and>
    getCustomPropertiesFromSources fuel env (options_resolver opts) (importFrom opts) = Some (Inr M) \<longrightarrow>
      customPropertiesPromise (fst (createRule fuel env method opts s)) = Some (Inr (next_ref s)) \<and>
      objects (snd (createRule fuel env method opts s)) (next_ref s) = M) \<and>
   (customPropertiesPromise rl = Some (Inr target) \<and>
    getCustomPropertiesFromRoot fuel env (rule_resolver rl) root = Some fromRoot \<longrightarrow>
      mergedCustomProperties fuel env rl root s =
        (Some (Inr target), s\<lparr>objects := (objects s)(target := objects s target ++ fromRoot)\<rparr>) \<and>
      (name \<in> dom fromRoot \<longrightarrow> (objects s target ++ fromRoot) name = fromRoot name) \<and>
      (name \<notin> dom fromRoot \<longrightarrow> (objects s target ++ fromRoot) name = objects s target name) \<and>
      (rule_method rl = MethodTrue \<and> validateOptions env MethodTrue True \<longrightarrow>
         warnings (fst (rule_callback fuel env rl root s)) =
           fst (validateResult env (objects s target ++ fromRoot) root)))"
proof (intro conjI impI)
  show "getCustomPropertiesFromSources fuel env r sources = Some (Inr M) \<longleftrightarrow>
      (\<exists>ms. map (source_mapping fuel env r) (map (sources_map_callback env) sources) =
               map (\<lambda>m. Some (Inr m)) ms \<and>
             M = foldl (++) Map.empty ms)"
    unfolding getCustomPropertiesFromSources_def by (rule reduce_fulfilled)
next
  assume h: "map (source_mapping fuel env r) (map (sources_map_callback env) sources) =
      map (\<lambda>m. Some (Inr m)) (xs @ m # ys) \<and>
    name \<in> dom m \<and> (\<forall>later \<in> set ys. name \<notin> dom later)"
  then have "\<exists>ms. map (source_mapping fuel env r) (map (sources_map_callback env) sources) =
               map (\<lambda>m. Some (Inr m)) ms \<and>
             foldl (++) Map.empty (xs @ m # ys) = foldl (++) Map.empty ms"
    by blast
  then have "getCustomPropertiesFromSources fuel env r sources =
             Some (Inr (foldl (++) Map.empty (xs @ m # ys)))"
    unfolding getCustomPropertiesFromSources_def by (rule iffD2 [OF reduce_fulfilled])
  moreover have "foldl (++) Map.empty (xs @ m # ys) name = m name"
    using h by (intro foldl_map_add_last) simp_all
  ultimately show "\<exists>M'. getCustomPropertiesFromSources fuel env r sources = Some (Inr M') \<and>
                        M' name = m name"
    by blast
next
  assume h: "isMethodEnabled method \<and>
    getCustomPropertiesFromSources fuel env (options_resolver opts) (importFrom opts) = Some (Inr M)"
  then show "customPropertiesPromise (fst (createRule fuel env method opts s)) = Some (Inr (next_ref s))"
    by (simp add: createRule_def new_object_def Let_def)
  from h show "objects (snd (createRule fuel env method opts s)) (next_ref s) = M"
    by (simp add: createRule_def new_object_def Let_def)
next
  assume h: "customPropertiesPromise rl = Some (Inr target) \<and>
    getCustomPropertiesFromRoot fuel env (rule_resolver rl) root = Some fromRoot"
  then show merged: "mergedCustomProperties fuel env rl root s =
        (Some (Inr target), s\<lparr>objects := (objects s)(target := objects s target ++ fromRoot)\<rparr>)"
    by (simp add: mergedCustomProperties_def Object_assign_at_def Object_assign_def)
  show "(objects s target ++ fromRoot) name = fromRoot name" if "name \<in> dom fromRoot"
    using that by (simp add: map_add_dom_app_simps)
  show "(objects s target ++ fromRoot) name = objects s target name" if "name \<notin> dom fromRoot"
    using that by (simp add: map_add_dom_app_simps)
  show "warnings (fst (rule_callback fuel env rl root s)) =
          fst (validateResult env (objects s target ++ fromRoot) root)"
    if "rule_method rl = MethodTrue \<and> validateOptions env MethodTrue True"
    using that merged
    by (simp add: rule_callback_def isMethodEnabled_def isMethodDisabled_def split: prod.splits)
qed

theorem sources_fold_in_order_witness:
  "getCustomPropertiesFromSources 1 (host [] [] []) no_resolver
     [ObjectSource \<lparr>obj_type = None, obj_from = None,
                    obj_customProperties = Some (map_of [(''--y'', ''a'')]), obj_custom_properties = None\<rparr>,
      ObjectSource \<lparr>obj_type = None, obj_from = None, obj_customProperties = None,
                    obj_custom_properties = Some (map_of [(''--y'', ''b''), (''--z'', ''c'')])\<rparr>] =
     Some (Inr (foldl (++) Map.empty
                  [map_of [(''--y'', ''a'')], map_of [(''--y'', ''b''), (''--z'', ''c'')]])) \<and>
   foldl (++) Map.empty
     [map_of [(''--y'', ''a'')], map_of [(''--y'', ''b''), (''--z'', ''c'')]] ''--y'' = Some ''b'' \<and>
   customPropertiesPromise
     (fst (createRule 1 (host [] [] []) MethodTrue
             \<lparr>importFrom =
                [ObjectSource \<lparr>obj_type = None, obj_from = None,
                    obj_customProperties = Some (map_of [(''--y'', ''a'')]), obj_custom_properties = None\<rparr>,
                 ObjectSource \<lparr>obj_type = None, obj_from = None, obj_customProperties = None,
                    obj_custom_properties = Some (map_of [(''--y'', ''b''), (''--z'', ''c'')])\<rparr>],
              options_resolver = no_resolver\<rparr> empty_store)) = Some (Inr 0) \<and>
   objects
     (snd (mergedCustomProperties 1 (host [] [] [])
             \<lparr>rule_method = MethodTrue, rule_resolver = no_resolver,
              customPropertiesPromise = Some (Inr 0)\<rparr>
             \<lparr>root_file = None,
              root_nodes = [Rule '':root'' [Decl \<lparr>decl_prop = ''--y'', decl_value = ''own''\<rparr>]]\<rparr>
             \<lparr>objects = (\<lambda>object. map_of [(''--y'', ''b''), (''--z'', ''c'')]), next_ref = 1\<rparr>))
     0 ''--y'' = Some ''own'' \<and>
   warnings
     (fst (rule_callback 1 (host [] [] [])
             \<lparr>rule_method = MethodTrue, rule_resolver = no_resolver,
              customPropertiesPromise = Some (Inr 0)\<rparr>
             \<lparr>root_file = None,
              root_nodes = [Rule '':root'' [Decl \<lparr>decl_prop = ''--y'', decl_value = ''own''\<rparr>]]\<rparr>
             \<lparr>objects = (\<lambda>object. map_of [(''--y'', ''b''), (''--z'', ''c'')]), next_ref = 1\<rparr>)) = []"
proof -
  let ?H = "host [] [] []"
  let ?a = "map_of [(''--y'', ''a'')]"
  let ?b = "map_of [(''--y'', ''b''), (''--z'', ''c'')]"
  let ?S = "[ObjectSource \<lparr>obj_type = None, obj_from = None,
                    obj_customProperties = Some ?a, obj_custom_properties = None\<rparr>,
             ObjectSource \<lparr>obj_type = None, obj_from = None, obj_customProperties = None,
                    obj_custom_properties = Some ?b\<rparr>]"
  let ?opts = "\<lparr>importFrom = ?S, options_resolver = no_resolver\<rparr>"
  let ?rl = "\<lparr>rule_method = MethodTrue, rule_resolver = no_resolver,
              customPropertiesPromise = Some (Inr 0)\<rparr>"
  let ?root = "\<lparr>root_file = None,
              root_nodes = [Rule '':root'' [Decl \<lparr>decl_prop = ''--y'', decl_value = ''own''\<rparr>]]\<rparr>"
  let ?s = "\<lparr>objects = (\<lambda>object. ?b), next_ref = 1\<rparr>"
  have each: "map (source_mapping 1 ?H no_resolver) (map (sources_map_callback ?H) ?S) =
              map (\<lambda>m. Some (Inr m)) [?a, ?b]"
    by (simp add: source_mapping_def sources_map_callback_def getCustomPropertiesFromObject_def
        Object_assign_def)
  have later: "map (source_mapping 1 ?H no_resolver) (map (sources_map_callback ?H) ?S) =
                 map (\<lambda>m. Some (Inr m)) ([?a] @ ?b # []) \<and>
               ''--y'' \<in> dom ?b \<and> (\<forall>later \<in> set []. ''--y'' \<notin> dom later)"
    using each by simp
  have enabled: "isMethodEnabled MethodTrue"
    by (simp add: isMethodEnabled_def)
  have fromRoot: "customPropertiesPromise ?rl = Some (Inr 0) \<and>
      getCustomPropertiesFromRoot 1 ?H (rule_resolver ?rl) ?root = Some (map_of [(''--y'', ''own'')])"
    by (simp add: walk_eval)
  have valid: "rule_method ?rl = MethodTrue \<and> validateOptions ?H MethodTrue True"
    by (simp add: host_def)
  note T = sources_fold_in_order [where fuel = 1 and env = ?H]
  have "\<exists>ms. map (source_mapping 1 ?H no_resolver) (map (sources_map_callback ?H) ?S) =
               map (\<lambda>m. Some (Inr m)) ms \<and>
             foldl (++) Map.empty [?a, ?b] = foldl (++) Map.empty ms"
    by (rule exI [of _ "[?a, ?b]"]) (rule conjI [OF each refl])
  then have fold: "getCustomPropertiesFromSources 1 ?H no_resolver ?S =
              Some (Inr (foldl (++) Map.empty [?a, ?b]))"
    by (rule iffD2 [OF conjunct1 [OF T [where r = no_resolver and sources = ?S]]])
  have "\<exists>M'. getCustomPropertiesFromSources 1 ?H no_resolver ?S = Some (Inr M') \<and>
              M' ''--y'' = ?b ''--y''"
    by (rule mp [OF conjunct1 [OF conjunct2 [OF T]] later])
  with fold have wins: "foldl (++) Map.empty [?a, ?b] ''--y'' = Some ''b''"
    by simp
  have "isMethodEnabled MethodTrue \<and>
        getCustomPropertiesFromSources 1 ?H (options_resolver ?opts) (importFrom ?opts) =
          Some (Inr (foldl (++) Map.empty [?a, ?b]))"
    using enabled fold by simp
  then have created: "customPropertiesPromise (fst (createRule 1 ?H MethodTrue ?opts empty_store)) =
                 Some (Inr (next_ref empty_store))"
    by (rule conjunct1 [OF mp [OF conjunct1 [OF conjunct2 [OF conjunct2 [OF T]]]]])
  note last = mp [OF conjunct2 [OF conjunct2 [OF conjunct2 [OF T]]] fromRoot]
  have merged: "mergedCustomProperties 1 ?H ?rl ?root ?s =
        (Some (Inr 0), ?s\<lparr>objects := (objects ?s)(0 := objects ?s 0 ++ map_of [(''--y'', ''own'')])\<rparr>)"
    by (rule conjunct1 [OF last])
  have "warnings (fst (rule_callback 1 ?H ?rl ?root ?s)) =
          fst (validateResult ?H (objects ?s 0 ++ map_of [(''--y'', ''own'')]) ?root)"
    by (rule mp [OF conjunct2 [OF conjunct2 [OF conjunct2 [OF last]]] valid])
  then have silent: "warnings (fst (rule_callback 1 ?H ?rl ?root ?s)) = []"
    by (simp add: validateResult_def hasCustomPropertyReference_def customPropertyReferenceRegExp_def
        walk_eval)
  from fold wins created merged silent show ?thesis
    by (simp add: empty_store_def)
qed

text \<open>
  C4. \<^verbatim>\<open>getCustomPropertiesFromRoot\<close> returns as soon as all import promises of the tree
  have settled, and only then. The mapping it returns is the merge of all the imported
  mappings, in the order of the \<^verbatim>\<open>@import\<close> rules (an import that could not be resolved
  contributes nothing), overwritten by the tree's own matching declarations. So a name the
  tree declares has the raw value of its last such declaration; any other name has the
  value of the last import that defines it, and none if no import does. A tree without
  \<^verbatim>\<open>@import\<close> rules returns its own declarations, and a result never depends on how much
  fuel is left over.
\<close>

theorem local_declarations_override_imports:
  "(importPromises fuel env r root = map Some imported \<longrightarrow>
      getCustomPropertiesFromRoot (Suc fuel) env r root =
        Some (foldl (++) Map.empty (map (\<lambda>i. case i of None \<Rightarrow> Map.empty | Some mi \<Rightarrow> mi) imported) ++
              map_of (rev (own_declarations root)))) \<and>
   (getCustomPropertiesFromRoot (Suc fuel) env r root = Some m \<longrightarrow>
      (\<exists>settled. importPromises fuel env r root = map Some settled) \<and>
      (walkDecls customPropertyRegExp root = before @ d # after \<and>
       decl_prop d \<notin> decl_prop ` set after \<longrightarrow> m (decl_prop d) = Some (decl_value d)) \<and>
      (\<forall>more. getCustomPropertiesFromRoot (Suc fuel + more) env r root = Some m)) \<and>
   (importPromises fuel env r root = map Some (earlier @ Some mi # later) \<and>
    name \<notin> decl_prop ` set (walkDecls customPropertyRegExp root) \<and> name \<in> dom mi \<and>
    (\<forall>i \<in> set later. \<forall>ml. i = Some ml \<longrightarrow> name \<notin> dom ml) \<longrightarrow>
      (\<exists>result. getCustomPropertiesFromRoot (Suc fuel) env r root = Some result \<and>
                 result name = mi name)) \<and>
   (importPromises fuel env r root = map Some imported \<and>
    name \<notin> decl_prop ` set (walkDecls customPropertyRegExp root) \<and>
    (\<forall>i \<in> set imported. \<forall>ml. i = Some ml \<longrightarrow> name \<notin> dom ml) \<longrightarrow>
      (\<exists>result. getCustomPropertiesFromRoot (Suc fuel) env r root = Some result \<and>
                 result name = None)) \<and>
   (walkAtRules ''import'' root = [] \<longrightarrow>
      getCustomPropertiesFromRoot (Suc fuel) env r root = Some (map_of (rev (own_declarations root))))"
proof (intro conjI impI allI)
  assume "importPromises fuel env r root = map Some imported"
  then show "getCustomPropertiesFromRoot (Suc fuel) env r root =
        Some (foldl (++) Map.empty (map (\<lambda>i. case i of None \<Rightarrow> Map.empty | Some mi \<Rightarrow> mi) imported) ++
              map_of (rev (own_declarations root)))"
    by (rule getCustomPropertiesFromRoot_settled)
next
  assume "getCustomPropertiesFromRoot (Suc fuel) env r root = Some m"
  then show "\<exists>settled. importPromises fuel env r root = map Some settled"
    using getCustomPropertiesFromRoot_returned by blast
next
  assume run: "getCustomPropertiesFromRoot (Suc fuel) env r root = Some m"
    and h: "walkDecls customPropertyRegExp root = before @ d # after \<and>
            decl_prop d \<notin> decl_prop ` set after"
  obtain base where m: "m = base ++ map_of (rev (own_declarations root))"
    using getCustomPropertiesFromRoot_returned [OF run] by blast
  have "own_declarations root =
        map (\<lambda>d. (decl_prop d, decl_value d)) before @ (decl_prop d, decl_value d) #
        map (\<lambda>d. (decl_prop d, decl_value d)) after"
    using h by (simp add: own_declarations_def)
  moreover have "decl_prop d \<notin> fst ` set (map (\<lambda>d. (decl_prop d, decl_value d)) after)"
    using h by (simp add: image_image)
  ultimately have "map_of (rev (own_declarations root)) (decl_prop d) = Some (decl_value d)"
    by (rule map_of_rev_last)
  then show "m (decl_prop d) = Some (decl_value d)"
    unfolding m by (simp add: map_add_def)
next
  fix more
  assume "getCustomPropertiesFromRoot (Suc fuel) env r root = Some m"
  then show "getCustomPropertiesFromRoot (Suc fuel + more) env r root = Some m"
    by (rule more_fuel)
next
  assume h: "importPromises fuel env r root = map Some (earlier @ Some mi # later) \<and>
    name \<notin> decl_prop ` set (walkDecls customPropertyRegExp root) \<and> name \<in> dom mi \<and>
    (\<forall>i \<in> set later. \<forall>ml. i = Some ml \<longrightarrow> name \<notin> dom ml)"
  let ?each = "\<lambda>i. case i of None \<Rightarrow> Map.empty | Some mi \<Rightarrow> (mi :: customProperties)"
  let ?result = "foldl (++) Map.empty (map ?each (earlier @ Some mi # later)) ++
                 map_of (rev (own_declarations root))"
  have run: "getCustomPropertiesFromRoot (Suc fuel) env r root = Some ?result"
    using h by (intro getCustomPropertiesFromRoot_settled) simp
  have "name \<notin> fst ` set (rev (own_declarations root))"
    using h by (simp add: own_declarations_def image_image)
  then have own: "map_of (rev (own_declarations root)) name = None"
    by (simp add: map_of_eq_None_iff)
  have "\<forall>ml \<in> set (map ?each later). name \<notin> dom ml"
    using h by (auto split: option.splits)
  then have "foldl (++) Map.empty (map ?each earlier @ mi # map ?each later) name = mi name"
    using h by (intro foldl_map_add_last) simp_all
  then have "?result name = mi name"
    using own by (simp add: map_add_def)
  with run show "\<exists>result. getCustomPropertiesFromRoot (Suc fuel) env r root = Some result \<and>
                          result name = mi name"
    by blast
next
  assume h: "importPromises fuel env r root = map Some imported \<and>
    name \<notin> decl_prop ` set (walkDecls customPropertyRegExp root) \<and>
    (\<forall>i \<in> set imported. \<forall>ml. i = Some ml \<longrightarrow> name \<notin> dom ml)"
  let ?each = "\<lambda>i. case i of None \<Rightarrow> Map.empty | Some mi \<Rightarrow> (mi :: customProperties)"
  let ?result = "foldl (++) Map.empty (map ?each imported) ++ map_of (rev (own_declarations root))"
  have run: "getCustomPropertiesFromRoot (Suc fuel) env r root = Some ?result"
    using h by (intro getCustomPropertiesFromRoot_settled) simp
  have "name \<notin> fst ` set (rev (own_declarations root))"
    using h by (simp add: own_declarations_def image_image)
  then have own: "map_of (rev (own_declarations root)) name = None"
    by (simp add: map_of_eq_None_iff)
  have "\<forall>ml \<in> set (map ?each imported). name \<notin> dom ml"
    using h by (auto split: option.splits)
  then have "foldl (++) Map.empty (map ?each imported) name = Map.empty name"
    by (rule foldl_map_add_none)
  then have "?result name = None"
    using own by (simp add: map_add_def)
  with run show "\<exists>result. getCustomPropertiesFromRoot (Suc fuel) env r root = Some result \<and>
                          result name = None"
    by blast
next
  assume "walkAtRules ''import'' root = []"
  then show "getCustomPropertiesFromRoot (Suc fuel) env r root = Some (map_of (rev (own_declarations root)))"
    by (rule without_imports_returns)
qed

text \<open>
  File A declares \<^verbatim>\<open>--x: 1\<close> and imports B (\<^verbatim>\<open>--x: 2\<close>, \<^verbatim>\<open>--y: 3\<close>, \<^verbatim>\<open>--w: 7\<close>) by a relative
  specifier and then C (\<^verbatim>\<open>--y: 4\<close>, \<^verbatim>\<open>--z: 5\<close>) by an absolute path. Both imports settle with
  fuel 1, so A returns with fuel 2: \<^verbatim>\<open>--x\<close> is A's own 1, \<^verbatim>\<open>--y\<close> is 4 from the later import,
  \<^verbatim>\<open>--w\<close> and \<^verbatim>\<open>--z\<close> come from B and C, and \<^verbatim>\<open>--q\<close> is nowhere. B alone, which imports
  nothing, returns its declarations.
\<close>

theorem local_declarations_override_imports_witness:
  "map (map_option (map_option (\<lambda>m. map m [''--x'', ''--y'', ''--w'', ''--z''])))
     (importPromises 1 import_host no_resolver importing_stylesheet) =
     [Some (Some [Some ''2'', Some ''3'', Some ''7'', None]),
      Some (Some [None, Some ''4'', None, Some ''5''])] \<and>
   map_option (\<lambda>m. map m [''--x'', ''--y'', ''--w'', ''--z'', ''--q''])
     (getCustomPropertiesFromRoot 2 import_host no_resolver importing_stylesheet) =
     Some [Some ''1'', Some ''4'', Some ''7'', Some ''5'', None] \<and>
   map_option (\<lambda>m. map m [''--x'', ''--y'', ''--w'', ''--z'', ''--q''])
     (getCustomPropertiesFromRoot 5 import_host no_resolver importing_stylesheet) =
     Some [Some ''1'', Some ''4'', Some ''7'', Some ''5'', None] \<and>
   walkDecls customPropertyRegExp importing_stylesheet = [] @ \<lparr>decl_prop = ''--x'', decl_value = ''1''\<rparr> # [] \<and>
   getCustomPropertiesFromRoot 1 import_host no_resolver
     \<lparr>root_file = Some ''/css/b.css'', root_nodes = stylesheet_b\<rparr> =
     Some (map_of (rev (own_declarations \<lparr>root_file = Some ''/css/b.css'', root_nodes = stylesheet_b\<rparr>)))"
proof -
  let ?H = import_host
  let ?A = importing_stylesheet
  let ?B = "\<lparr>root_file = Some ''/css/b.css'', root_nodes = stylesheet_b\<rparr>"
  let ?mb = "map_of [(''--w'', ''7''), (''--y'', ''3''), (''--x'', ''2'')]"
  let ?mc = "map_of [(''--z'', ''5''), (''--y'', ''4'')]"
  note T = local_declarations_override_imports [where env = ?H and r = no_resolver]
  have promises: "importPromises 1 ?H no_resolver ?A = map Some [Some ?mb, Some ?mc]"
    by (simp add: import_eval walk_eval)
  have walk: "walkDecls customPropertyRegExp ?A = [] @ \<lparr>decl_prop = ''--x'', decl_value = ''1''\<rparr> # []"
    by (simp add: importing_stylesheet_def stylesheet_a_def walk_eval)
  have own: "own_declarations ?A = [(''--x'', ''1'')]"
    by (simp add: own_declarations_def importing_stylesheet_def stylesheet_a_def walk_eval)
  have run: "getCustomPropertiesFromRoot (Suc 1) ?H no_resolver ?A =
      Some (foldl (++) Map.empty (map (\<lambda>i. case i of None \<Rightarrow> Map.empty | Some mi \<Rightarrow> mi) [Some ?mb, Some ?mc]) ++
            map_of (rev (own_declarations ?A)))"
    by (rule mp [OF conjunct1 [OF T [where fuel = 1 and root = ?A]] promises])
  note returned = mp [OF conjunct1 [OF conjunct2 [OF T [where fuel = 1 and root = ?A
        and before = "[]" and d = "\<lparr>decl_prop = ''--x'', decl_value = ''1''\<rparr>" and after = "[]"]]] run]
  have x: "(foldl (++) Map.empty (map (\<lambda>i. case i of None \<Rightarrow> Map.empty | Some mi \<Rightarrow> mi) [Some ?mb, Some ?mc]) ++
            map_of (rev (own_declarations ?A))) (decl_prop \<lparr>decl_prop = ''--x'', decl_value = ''1''\<rparr>) =
           Some (decl_value \<lparr>decl_prop = ''--x'', decl_value = ''1''\<rparr>)"
    by (rule mp [OF conjunct1 [OF conjunct2 [OF returned]]]) (simp add: walk)
  have more: "getCustomPropertiesFromRoot (Suc 1 + 3) ?H no_resolver ?A =
      Some (foldl (++) Map.empty (map (\<lambda>i. case i of None \<Rightarrow> Map.empty | Some mi \<Rightarrow> mi) [Some ?mb, Some ?mc]) ++
            map_of (rev (own_declarations ?A)))"
    by (rule spec [OF conjunct2 [OF conjunct2 [OF returned]]])
  have leaf: "walkAtRules ''import'' ?B = []"
    by (simp add: stylesheet_b_def walk_eval)
  have b: "getCustomPropertiesFromRoot (Suc 0) ?H no_resolver ?B = Some (map_of (rev (own_declarations ?B)))"
    by (rule mp [OF conjunct2 [OF conjunct2 [OF conjunct2 [OF conjunct2 [OF T [where fuel = 0 and root = ?B]]]]] leaf])
  have two: "(2 :: nat) = Suc 1" and five: "(5 :: nat) = Suc 1 + 3"
    by simp_all
  have entries: "map (foldl (++) Map.empty (map (\<lambda>i. case i of None \<Rightarrow> Map.empty | Some mi \<Rightarrow> mi) [Some ?mb, Some ?mc]) ++
                     map_of (rev (own_declarations ?A))) [''--x'', ''--y'', ''--w'', ''--z'', ''--q''] =
                [Some ''1'', Some ''4'', Some ''7'', Some ''5'', None]"
    using x by (simp add: own)
  show ?thesis
    unfolding two five run more promises
    using entries walk b by simp
qed

text \<open>
  C5 (as amended). The loader used for \<^verbatim>\<open>@import\<close> rules,
  \<^verbatim>\<open>getCustomPropertiesFromCSSFile$1\<close>, resolves to the empty mapping when the file cannot
  be read or parsed. The three loaders of configured sources do not: a failed read
  rejects with the I/O error, unparseable contents with the syntax error, a failed module
  load with its error, and such a rejection of one configured source rejects
  \<^verbatim>\<open>getCustomPropertiesFromSources\<close> as a whole, whatever sources follow.
\<close>

theorem loaders_on_failure:
  "(readFile env location = None \<longrightarrow>
      getCustomPropertiesFromCSSFile1 fuel env r location = Some Map.empty \<and>
      getCustomPropertiesFromCSSFile fuel env r location = Some (Inl IOError) \<and>
      getCustomPropertiesFromJSONFile env location = Inl IOError) \<and>
   (readFile env location = Some content \<and> postcss_parse env content location = None \<longrightarrow>
      getCustomPropertiesFromCSSFile1 fuel env r location = Some Map.empty \<and>
      getCustomPropertiesFromCSSFile fuel env r location = Some (Inl SyntaxError)) \<and>
   (readFile env location = Some content \<and> JSON_parse env content = None \<longrightarrow>
      getCustomPropertiesFromJSONFile env location = Inl SyntaxError) \<and>
   (import_module env location = None \<longrightarrow> getCustomPropertiesFromJSFile env location = Inl ModuleError) \<and>
   (getCustomPropertiesFromSources fuel env r sources = Some (Inr m) \<and>
    sources_map_callback env source = Inr s \<and> obj_from s = Some location \<and>
    (obj_type s = Some ''css'' \<and> getCustomPropertiesFromCSSFile fuel env r location = Some (Inl e) \<or>
     obj_type s = Some ''js'' \<and> getCustomPropertiesFromJSFile env location = Inl e \<or>
     obj_type s = Some ''json'' \<and> getCustomPropertiesFromJSONFile env location = Inl e) \<longrightarrow>
      (\<exists>e'. getCustomPropertiesFromSources fuel env r (sources @ source # later) = Some (Inl e')))"
proof (intro conjI impI)
  assume "getCustomPropertiesFromSources fuel env r sources = Some (Inr m) \<and>
    sources_map_callback env source = Inr s \<and> obj_from s = Some location \<and>
    (obj_type s = Some ''css'' \<and> getCustomPropertiesFromCSSFile fuel env r location = Some (Inl e) \<or>
     obj_type s = Some ''js'' \<and> getCustomPropertiesFromJSFile env location = Inl e \<or>
     obj_type s = Some ''json'' \<and> getCustomPropertiesFromJSONFile env location = Inl e)"
  then have "sources_reduce_callback fuel env r
               (foldl (sources_reduce_callback fuel env r) (Some (Inr Map.empty))
                  (map (sources_map_callback env) sources))
               (sources_map_callback env source) = Some (Inl e)"
    by (auto simp: getCustomPropertiesFromSources_def sources_reduce_callback_def load_from_def)
  then show "\<exists>e'. getCustomPropertiesFromSources fuel env r (sources @ source # later) = Some (Inl e')"
    using reduce_rejected [of fuel env r e "map (sources_map_callback env) later"]
    by (simp add: getCustomPropertiesFromSources_def)
qed (simp_all add: getCustomPropertiesFromCSSFile_def getCustomPropertiesFromJSONFile_def
    getCustomPropertiesFromJSFile_def readJSON_def)

theorem loaders_on_failure_witness:
  "readFile (host [(''/a.css'', ''broken'')] [] []) ''/missing.css'' = None \<and>
   getCustomPropertiesFromCSSFile1 1 (host [(''/a.css'', ''broken'')] [] []) no_resolver ''/missing.css'' = Some Map.empty \<and>
   getCustomPropertiesFromCSSFile 1 (host [(''/a.css'', ''broken'')] [] []) no_resolver ''/missing.css'' = Some (Inl IOError) \<and>
   getCustomPropertiesFromJSONFile (host [(''/a.css'', ''broken'')] [] []) ''/missing.css'' = Inl IOError \<and>
   getCustomPropertiesFromCSSFile1 1 (host [(''/a.css'', ''broken'')] [] []) no_resolver ''/a.css'' = Some Map.empty \<and>
   getCustomPropertiesFromCSSFile 1 (host [(''/a.css'', ''broken'')] [] []) no_resolver ''/a.css'' = Some (Inl SyntaxError) \<and>
   getCustomPropertiesFromJSONFile (host [(''/a.css'', ''broken'')] [] []) ''/a.css'' = Inl SyntaxError \<and>
   getCustomPropertiesFromJSFile (host [(''/a.css'', ''broken'')] [] []) ''/a.css'' = Inl ModuleError \<and>
   (\<exists>e'. getCustomPropertiesFromSources 1 (host [(''/a.css'', ''broken'')] [] []) no_resolver
            ([] @ StringSource ''/a.css'' # [ObjectSource \<lparr>obj_type = None, obj_from = None,
                 obj_customProperties = Some (map_of [(''--a'', ''1'')]), obj_custom_properties = None\<rparr>]) =
          Some (Inl e'))"
proof -
  let ?H = "host [(''/a.css'', ''broken'')] [] []"
  let ?s = "\<lparr>obj_type = Some ''css'', obj_from = Some ''/a.css'',
             obj_customProperties = None, obj_custom_properties = None\<rparr>"
  have missing: "readFile ?H ''/missing.css'' = None"
    and broken: "readFile ?H ''/a.css'' = Some ''broken'' \<and> postcss_parse ?H ''broken'' ''/a.css'' = None"
    and json: "readFile ?H ''/a.css'' = Some ''broken'' \<and> JSON_parse ?H ''broken'' = None"
    and js: "import_module ?H ''/a.css'' = None"
    by (simp_all add: host_eval)
  have start: "getCustomPropertiesFromSources 1 ?H no_resolver [] = Some (Inr Map.empty)"
    by (simp add: getCustomPropertiesFromSources_def)
  have source: "sources_map_callback ?H (StringSource ''/a.css'') = Inr ?s \<and> obj_from ?s = Some ''/a.css''"
    by (simp add: sources_map_callback_def host_eval toLowerCase_def Let_def)
  note T = loaders_on_failure [where env = ?H and fuel = 1 and r = no_resolver]
  from T [where location = "''/missing.css''"] missing
  have a: "getCustomPropertiesFromCSSFile1 1 ?H no_resolver ''/missing.css'' = Some Map.empty \<and>
      getCustomPropertiesFromCSSFile 1 ?H no_resolver ''/missing.css'' = Some (Inl IOError) \<and>
      getCustomPropertiesFromJSONFile ?H ''/missing.css'' = Inl IOError"
    by blast
  from T [where location = "''/a.css''" and content = "''broken''"] broken json js
  have b: "getCustomPropertiesFromCSSFile1 1 ?H no_resolver ''/a.css'' = Some Map.empty \<and>
      getCustomPropertiesFromCSSFile 1 ?H no_resolver ''/a.css'' = Some (Inl SyntaxError)"
    and c: "getCustomPropertiesFromJSONFile ?H ''/a.css'' = Inl SyntaxError"
    and d: "getCustomPropertiesFromJSFile ?H ''/a.css'' = Inl ModuleError"
    by blast+
  from T [where location = "''/a.css''" and sources = "[]" and m = Map.empty
      and source = "StringSource ''/a.css''" and s = ?s and e = SyntaxError] start source b
  have e: "\<exists>e'. getCustomPropertiesFromSources 1 ?H no_resolver
            ([] @ StringSource ''/a.css'' # [ObjectSource \<lparr>obj_type = None, obj_from = None,
                 obj_customProperties = Some (map_of [(''--a'', ''1'')]), obj_custom_properties = None\<rparr>]) =
          Some (Inl e')"
    by simp
  from missing a b c d e show ?thesis by simp
qed

text \<open>
  The claim as stated fails: with no file present, the JSON, CSS and module loaders of
  configured sources reject instead of resolving to an empty mapping, and so does the
  aggregator for the single source \<^verbatim>\<open>/missing.json\<close>.
\<close>

theorem missing_json_file_counterexample:
  "getCustomPropertiesFromJSONFile (host [] [] []) ''/missing.json'' = Inl IOError \<and>
   getCustomPropertiesFromCSSFile 1 (host [] [] []) no_resolver ''/missing.css'' = Some (Inl IOError) \<and>
   getCustomPropertiesFromJSFile (host [] [] []) ''/missing.js'' = Inl ModuleError \<and>
   getCustomPropertiesFromSources 1 (host [] [] []) no_resolver [StringSource ''/missing.json''] =
     Some (Inl IOError)"
  by (simp add: getCustomPropertiesFromJSONFile_def getCustomPropertiesFromCSSFile_def
      getCustomPropertiesFromJSFile_def readJSON_def host_eval getCustomPropertiesFromSources_def
      sources_map_callback_def sources_reduce_callback_def load_from_def toLowerCase_def Let_def)

text \<open>
  C6. The callback merges a stylesheet's own mapping into the object that
  \<open>customPropertiesPromise\<close> holds (the target of \<^verbatim>\<open>Object.assign\<close>). With one enabled rule:
  the object starts without \<^verbatim>\<open>--a\<close>; the second stylesheet alone is reported for
  \<^verbatim>\<open>var(--a)\<close>; after the first stylesheet the object holds \<^verbatim>\<open>--a\<close>, and the second
  stylesheet processed next is not reported.
\<close>

theorem shared_mapping_is_mutated:
  "customPropertiesPromise (fst shared_rule) = Some (Inr 0) \<and>
   objects (snd shared_rule) 0 ''--a'' = None \<and>
   warnings (fst (rule_callback 1 shared_host (fst shared_rule) using_stylesheet (snd shared_rule))) =
     [\<lparr>message = stylelint_ruleMessages ruleName unexpected ''--a'' ''color'',
       report_node = \<lparr>decl_prop = ''color'', decl_value = ''var(--a)''\<rparr>,
       report_ruleName = ruleName, word = ''--a''\<rparr>] \<and>
   objects (snd (rule_callback 1 shared_host (fst shared_rule) declaring_stylesheet (snd shared_rule))) 0 ''--a'' =
     Some ''1'' \<and>
   warnings (fst (rule_callback 1 shared_host (fst shared_rule) using_stylesheet
                    (snd (rule_callback 1 shared_host (fst shared_rule) declaring_stylesheet (snd shared_rule))))) = []"
  by (simp add: shared_rule_def shared_host_def declaring_stylesheet_def using_stylesheet_def lint_eval walk_eval
      validateValueAST.simps isVarFunction_def node_builders)

text \<open>
  C7. The expression accepts every third character in the range \<^verbatim>\<open>A\<close> to \<^verbatim>\<open>z\<close>, which
  holds the underscore: the declaration \<^verbatim>\<open>--_x: 1\<close> is captured, although its third
  character is not a letter. A digit in that place is rejected.
\<close>

theorem underscore_name_is_captured:
  "in_range_A_z (CHR ''_'') \<and> customPropertyRegExp ''--_x'' \<and> \<not> customPropertyRegExp ''--1x'' \<and>
   getCustomPropertiesFromRoot 1 (host [] [] []) no_resolver
     \<lparr>root_file = None,
      root_nodes = [Rule '':root'' [Decl \<lparr>decl_prop = ''--_x'', decl_value = ''1''\<rparr>]]\<rparr> =
   Some (map_of [(''--_x'', ''1'')])"
  by (simp add: walk_eval One_nat_def [symmetric] del: One_nat_def) (simp add: walk_eval)

text \<open>
  C8. \<^verbatim>\<open>getCustomPropertiesFromObject\<close> returns the shallow merge of the two fields, the
  \<^verbatim>\<open>custom-properties\<close> field last: a name in that field has its value there, a name only
  in \<^verbatim>\<open>customProperties\<close> has that field's value; a missing field contributes nothing.
\<close>

theorem getCustomPropertiesFromObject_merge:
  "(obj_customProperties object = Some first \<and> obj_custom_properties object = Some second \<longrightarrow>
      getCustomPropertiesFromObject object = first ++ second \<and>
      (name \<in> dom second \<longrightarrow> getCustomPropertiesFromObject object name = second name) \<and>
      (name \<notin> dom second \<longrightarrow> getCustomPropertiesFromObject object name = first name)) \<and>
   (obj_customProperties object = Some first \<and> obj_custom_properties object = None \<longrightarrow>
      getCustomPropertiesFromObject object = first) \<and>
   (obj_customProperties object = None \<and> obj_custom_properties object = Some second \<longrightarrow>
      getCustomPropertiesFromObject object = second) \<and>
   (obj_customProperties object = None \<and> obj_custom_properties object = None \<longrightarrow>
      getCustomPropertiesFromObject object = Map.empty)"
  by (auto simp: getCustomPropertiesFromObject_def map_add_dom_app_simps)

theorem getCustomPropertiesFromObject_merge_witness:
  "getCustomPropertiesFromObject
     \<lparr>obj_type = None, obj_from = None,
      obj_customProperties = Some (map_of [(''--a'', ''1''), (''--b'', ''2'')]),
      obj_custom_properties = Some (map_of [(''--b'', ''3''), (''--c'', ''4'')])\<rparr> ''--a'' = Some ''1'' \<and>
   getCustomPropertiesFromObject
     \<lparr>obj_type = None, obj_from = None,
      obj_customProperties = Some (map_of [(''--a'', ''1''), (''--b'', ''2'')]),
      obj_custom_properties = Some (map_of [(''--b'', ''3''), (''--c'', ''4'')])\<rparr> ''--b'' = Some ''3'' \<and>
   getCustomPropertiesFromObject
     \<lparr>obj_type = None, obj_from = None,
      obj_customProperties = Some (map_of [(''--a'', ''1''), (''--b'', ''2'')]),
      obj_custom_properties = Some (map_of [(''--b'', ''3''), (''--c'', ''4'')])\<rparr> ''--c'' = Some ''4'' \<and>
   getCustomPropertiesFromObject
     \<lparr>obj_type = None, obj_from = None,
      obj_customProperties = Some (map_of [(''--a'', ''1''), (''--b'', ''2'')]),
      obj_custom_properties = None\<rparr> = map_of [(''--a'', ''1''), (''--b'', ''2'')]"
proof -
  let ?a = "map_of [(''--a'', ''1''), (''--b'', ''2'')]"
  let ?b = "map_of [(''--b'', ''3''), (''--c'', ''4'')]"
  let ?o = "\<lparr>obj_type = None, obj_from = None, obj_customProperties = Some ?a,
             obj_custom_properties = Some ?b\<rparr>"
  let ?p = "\<lparr>obj_type = None, obj_from = None, obj_customProperties = Some ?a,
             obj_custom_properties = None\<rparr>"
  have fields: "obj_customProperties ?o = Some ?a \<and> obj_custom_properties ?o = Some ?b"
    and fields': "obj_customProperties ?p = Some ?a \<and> obj_custom_properties ?p = None"
    by simp_all
  have "''--a'' \<notin> dom ?b" "''--b'' \<in> dom ?b" "''--c'' \<in> dom ?b"
    by simp_all
  with fields fields'
    getCustomPropertiesFromObject_merge [of ?o ?a ?b "''--a''"]
    getCustomPropertiesFromObject_merge [of ?o ?a ?b "''--b''"]
    getCustomPropertiesFromObject_merge [of ?o ?a ?b "''--c''"]
    getCustomPropertiesFromObject_merge [of ?p ?a _ "''--a''"]
  show ?thesis by simp
qed

end
